theory Spec2Isabelle
  imports Main "HOL-Library.Word"
begin

unbundle bit_operations_syntax

section \<open>The mapped region as bytes\<close>

text \<open>
  The writer reaches the shared region only through \<open>base_ptr_\<close> and the packed structs of
  \<open>shm_protocol.h\<close> laid over it. The region is modelled as what it is: bytes at offsets
  from the mapping's base. Every store also appends the byte range it touches, as
  (offset, length), to \<open>writes\<close>; this trace is never read by the program and only
  records where the stores of the source land.
\<close>

type_synonym byte = "8 word"

record shm =
  bytes :: "nat \<Rightarrow> byte"
  writes :: "(nat \<times> nat) list"

definition store_bytes :: "nat \<Rightarrow> byte list \<Rightarrow> shm \<Rightarrow> shm" where
  "store_bytes a bs s =
     \<lparr>bytes = (\<lambda>x. if a \<le> x \<and> x < a + length bs then bs ! (x - a) else bytes s x),
      writes = writes s @ [(a, length bs)]\<rparr>"

definition load_bytes :: "(nat \<Rightarrow> byte) \<Rightarrow> nat \<Rightarrow> nat \<Rightarrow> byte list" where
  "load_bytes m a n = map m [a..<a + n]"

text \<open>Fixed-width unsigned fields are little-endian (the packed structs on x86-64).\<close>

fun le_bytes :: "nat \<Rightarrow> nat \<Rightarrow> byte list" where
  "le_bytes 0 x = []"
| "le_bytes (Suc n) x = of_nat (x mod 256) # le_bytes n (x div 256)"

fun le_nat :: "byte list \<Rightarrow> nat" where
  "le_nat [] = 0"
| "le_nat (b # bs) = unat b + 256 * le_nat bs"

definition store32 :: "nat \<Rightarrow> 32 word \<Rightarrow> shm \<Rightarrow> shm" where
  "store32 a v s = store_bytes a (le_bytes 4 (unat v)) s"

definition store64 :: "nat \<Rightarrow> 64 word \<Rightarrow> shm \<Rightarrow> shm" where
  "store64 a v s = store_bytes a (le_bytes 8 (unat v)) s"

abbreviation load32 :: "(nat \<Rightarrow> byte) \<Rightarrow> nat \<Rightarrow> 32 word" where
  "load32 m a \<equiv> of_nat (le_nat (load_bytes m a 4))"

abbreviation load64 :: "(nat \<Rightarrow> byte) \<Rightarrow> nat \<Rightarrow> 64 word" where
  "load64 m a \<equiv> of_nat (le_nat (load_bytes m a 8))"

text \<open>\<open>std::memset(p, 0, n)\<close>.\<close>

definition memset0 :: "nat \<Rightarrow> nat \<Rightarrow> shm \<Rightarrow> shm" where
  "memset0 a n s = store_bytes a (replicate n 0) s"

text \<open>
  A \<open>std::string\<close> is its byte sequence. \<open>c_str()\<close> as seen by \<open>strncpy\<close> ends at the
  first NUL; \<open>strncpy(dst, src, n)\<close> writes exactly \<open>n\<close> bytes, padding with NUL.
  \<open>std::string(p, strnlen(p, n))\<close> reads up to the first NUL within \<open>n\<close> bytes.
\<close>

definition c_str :: "byte list \<Rightarrow> byte list" where
  "c_str s = takeWhile (\<lambda>c. c \<noteq> 0) s"

definition strncpy :: "byte list \<Rightarrow> nat \<Rightarrow> byte list" where
  "strncpy src n = take n (c_str src) @ replicate (n - length (c_str src)) 0"

definition strn_string :: "(nat \<Rightarrow> byte) \<Rightarrow> nat \<Rightarrow> nat \<Rightarrow> byte list" where
  "strn_string m a n = takeWhile (\<lambda>c. c \<noteq> 0) (load_bytes m a n)"

section \<open>Constants and layout of shm\_protocol.h\<close>

definition MAGIC :: "32 word" where "MAGIC = 0x514E5853"
definition VERSION :: "32 word" where "VERSION = 1"
definition REGION_SIZE :: nat where "REGION_SIZE = 128 * 1024 * 1024"
definition MAX_SYMBOLS :: nat where "MAX_SYMBOLS = 256"
definition MAX_CANDLES_PER_SYMBOL :: nat where "MAX_CANDLES_PER_SYMBOL = 100000"
definition SYMBOL_NAME_SIZE :: nat where "SYMBOL_NAME_SIZE = 16"
definition INTERVAL_SIZE :: nat where "INTERVAL_SIZE = 8"

definition HEADER_OFFSET :: nat where "HEADER_OFFSET = 0"
definition SYMBOL_INDEX_OFFSET :: nat where "SYMBOL_INDEX_OFFSET = 256"
definition SYMBOL_INDEX_SIZE :: nat where "SYMBOL_INDEX_SIZE = 16384"
definition DATA_SECTIONS_OFFSET :: nat where "DATA_SECTIONS_OFFSET = 16640"

text \<open>Field offsets of the packed \<open>Header\<close> (256 bytes, at \<open>HEADER_OFFSET\<close>).\<close>

definition hdr_magic :: nat where "hdr_magic = HEADER_OFFSET + 0"
definition hdr_version :: nat where "hdr_version = HEADER_OFFSET + 4"
definition hdr_writer_pid :: nat where "hdr_writer_pid = HEADER_OFFSET + 8"
definition hdr_reader_pid :: nat where "hdr_reader_pid = HEADER_OFFSET + 12"
definition hdr_last_update_us :: nat where "hdr_last_update_us = HEADER_OFFSET + 16"
definition hdr_sequence :: nat where "hdr_sequence = HEADER_OFFSET + 24"
definition hdr_symbol_count :: nat where "hdr_symbol_count = HEADER_OFFSET + 32"
definition hdr_flags :: nat where "hdr_flags = HEADER_OFFSET + 36"
definition hdr_crc32 :: nat where "hdr_crc32 = HEADER_OFFSET + 40"

text \<open>
  The packed \<open>SymbolIndex\<close> at \<open>SYMBOL_INDEX_OFFSET\<close>: \<open>count\<close> (4 bytes), 4 bytes of
  padding, then \<open>entries[MAX_SYMBOLS]\<close> of 40 bytes each.
\<close>

definition sizeof_SymbolIndexEntry :: nat where "sizeof_SymbolIndexEntry = 40"
definition idx_count :: nat where "idx_count = SYMBOL_INDEX_OFFSET + 0"
definition idx_entries :: nat where "idx_entries = SYMBOL_INDEX_OFFSET + 8"
definition sizeof_entries :: nat where "sizeof_entries = sizeof_SymbolIndexEntry * MAX_SYMBOLS"

text \<open>\<open>&entries[i]\<close>, an entry pointer, is the entry's offset in the region.\<close>

definition entry_ptr :: "nat \<Rightarrow> nat" where
  "entry_ptr i = idx_entries + i * sizeof_SymbolIndexEntry"

definition ent_symbol :: "nat \<Rightarrow> nat" where "ent_symbol e = e + 0"
definition ent_data_offset :: "nat \<Rightarrow> nat" where "ent_data_offset e = e + 16"
definition ent_data_size :: "nat \<Rightarrow> nat" where "ent_data_size e = e + 24"
definition ent_candle_count :: "nat \<Rightarrow> nat" where "ent_candle_count e = e + 28"
definition ent_last_update_us :: "nat \<Rightarrow> nat" where "ent_last_update_us e = e + 32"

text \<open>The packed \<open>Candle\<close> (48 bytes) and \<open>OHLCVDataBlock\<close> (56 bytes before \<open>candles[]\<close>).\<close>

definition sizeof_Candle :: nat where "sizeof_Candle = 48"
definition sizeof_OHLCVDataBlock :: nat where "sizeof_OHLCVDataBlock = 56"

definition blk_symbol :: "nat \<Rightarrow> nat" where "blk_symbol b = b + 0"
definition blk_interval :: "nat \<Rightarrow> nat" where "blk_interval b = b + 16"
definition blk_count :: "nat \<Rightarrow> nat" where "blk_count b = b + 24"
definition blk_capacity :: "nat \<Rightarrow> nat" where "blk_capacity b = b + 28"
definition blk_start_timestamp :: "nat \<Rightarrow> nat" where "blk_start_timestamp b = b + 32"
definition blk_end_timestamp :: "nat \<Rightarrow> nat" where "blk_end_timestamp b = b + 40"
definition blk_candles :: "nat \<Rightarrow> nat \<Rightarrow> nat" where
  "blk_candles b i = b + sizeof_OHLCVDataBlock + i * sizeof_Candle"

text \<open>\<open>OHLCVDataBlock::RequiredSize(uint32_t n)\<close>, computed in \<open>size_t\<close>.\<close>

definition RequiredSize :: "32 word \<Rightarrow> nat" where
  "RequiredSize n = (sizeof_OHLCVDataBlock + unat n * sizeof_Candle) mod 2 ^ 64"

section \<open>SymbolIndexEntry and SymbolIndex\<close>

text \<open>\<open>SetSymbol\<close>: \<open>strncpy\<close> of 15 bytes, then \<open>symbol[15] = 0\<close>. The data block's
  \<open>SetSymbol\<close> is the same code on the block's own \<open>symbol\<close> array.\<close>

definition SetSymbol :: "nat \<Rightarrow> byte list \<Rightarrow> shm \<Rightarrow> shm" where
  "SetSymbol p symb s =
     store_bytes (p + (SYMBOL_NAME_SIZE - 1)) [0]
       (store_bytes p (strncpy symb (SYMBOL_NAME_SIZE - 1)) s)"

definition GetSymbol :: "(nat \<Rightarrow> byte) \<Rightarrow> nat \<Rightarrow> byte list" where
  "GetSymbol m p = strn_string m p SYMBOL_NAME_SIZE"

definition SetInterval :: "nat \<Rightarrow> byte list \<Rightarrow> shm \<Rightarrow> shm" where
  "SetInterval p intvl s =
     store_bytes (p + (INTERVAL_SIZE - 1)) [0]
       (store_bytes p (strncpy intvl (INTERVAL_SIZE - 1)) s)"

text \<open>\<open>SymbolIndex::Find\<close>: the loop \<open>for (i = 0; i < count && i < MAX_SYMBOLS; ++i)\<close>,
  from index \<open>i\<close> on; \<open>None\<close> is \<open>nullptr\<close>.\<close>

function Find_from :: "(nat \<Rightarrow> byte) \<Rightarrow> byte list \<Rightarrow> nat \<Rightarrow> nat option" where
  "Find_from m symbol i =
     (if i < unat (load32 m idx_count) \<and> i < MAX_SYMBOLS then
        (if GetSymbol m (ent_symbol (entry_ptr i)) = symbol then Some (entry_ptr i)
         else Find_from m symbol (i + 1))
      else None)"
  by pat_completeness auto
termination
  by (relation "measure (\<lambda>(m, symbol, i). MAX_SYMBOLS - i)") auto

declare Find_from.simps [simp del]

definition Find :: "(nat \<Rightarrow> byte) \<Rightarrow> byte list \<Rightarrow> nat option" where
  "Find m symbol = Find_from m symbol 0"

text \<open>\<open>SymbolIndex::Add\<close>: \<open>&entries[count++]\<close>, then \<open>SetSymbol\<close>.\<close>

definition Add :: "byte list \<Rightarrow> shm \<Rightarrow> nat option \<times> shm" where
  "Add symbol s =
     (let count = load32 (bytes s) idx_count in
      if unat count \<ge> MAX_SYMBOLS then (None, s)
      else
        let entry = entry_ptr (unat count);
            s1 = store32 idx_count (count + 1) s
        in (Some entry, SetSymbol (ent_symbol entry) symbol s1))"

section \<open>SharedMemoryWriter\<close>

datatype WriterError =
    OK | INVALID_NAME | INVALID_SIZE | CREATE_FAILED | MAPPING_FAILED | WRITE_FAILED
  | SYMBOL_NOT_FOUND | SYMBOL_LIMIT_EXCEEDED | CANDLE_LIMIT_EXCEEDED | NOT_INITIALIZED

text \<open>\<open>CandleData\<close>; the five doubles are carried as their 64-bit patterns, the writer
  only copies them.\<close>

record CandleData =
  timestamp :: "64 word"
  c_open :: "64 word"
  c_high :: "64 word"
  c_low :: "64 word"
  c_close :: "64 word"
  c_volume :: "64 word"

record WriterStats =
  total_symbols :: nat
  total_candles :: nat
  memory_used :: nat
  last_write_us :: "64 word"
  write_count :: "64 word"

text \<open>
  The members of \<open>SharedMemoryWriter\<close> (the source's trailing underscore is not a legal
  name here, so \<open>name_\<close> is \<open>w_name\<close> and so on). \<open>base_ptr_\<close> and \<open>region_\<close> are
  \<open>True\<close> when non-null; both point at offset 0 of \<open>mem\<close>, the mapped bytes. \<open>size_t\<close>
  members are naturals below \<open>2 ^ 64\<close>, with the wrap-around written where the source adds.
\<close>

record SharedMemoryWriter =
  w_name :: "byte list"
  w_size :: nat
  w_handle :: int
  w_base_ptr :: bool
  w_region :: bool
  w_next_data_offset :: nat
  mem :: shm

definition INVALID_HANDLE_VALUE :: int where "INVALID_HANDLE_VALUE = -1"

text \<open>The constructor.\<close>

definition new_writer :: "shm \<Rightarrow> SharedMemoryWriter" where
  "new_writer s =
     \<lparr>w_name = [], w_size = 0, w_handle = INVALID_HANDLE_VALUE, w_base_ptr = False,
      w_region = False, w_next_data_offset = DATA_SECTIONS_OFFSET, mem = s\<rparr>"

definition IsInitialized :: "SharedMemoryWriter \<Rightarrow> bool" where
  "IsInitialized w = w_region w"

text \<open>
  What the operating system answers to \<open>platform_create\<close> (POSIX branch): \<open>shm_open\<close> or
  \<open>ftruncate\<close> fails, \<open>mmap\<close> fails, or a descriptor and a mapping are returned. The
  mapping's first contents are the object's, which \<open>shm_open\<close> with \<open>O_CREAT\<close> alone may
  have found already existing; they are a parameter.
\<close>

datatype os_result = ShmOpenFails | MmapFails | Mapped int "nat \<Rightarrow> byte"

definition platform_create ::
  "os_result \<Rightarrow> SharedMemoryWriter \<Rightarrow> WriterError \<times> SharedMemoryWriter" where
  "platform_create os w =
     (case os of
        ShmOpenFails \<Rightarrow> (CREATE_FAILED, w\<lparr>w_handle := -1\<rparr>)
      | MmapFails \<Rightarrow> (MAPPING_FAILED, w\<lparr>w_handle := -1, w_base_ptr := False\<rparr>)
      | Mapped fd m \<Rightarrow>
          (OK, w\<lparr>w_handle := fd, w_base_ptr := True, mem := \<lparr>bytes = m, writes = []\<rparr>\<rparr>))"

definition platform_close :: "SharedMemoryWriter \<Rightarrow> SharedMemoryWriter" where
  "platform_close w =
     (let w1 = (if w_base_ptr w then w\<lparr>w_base_ptr := False\<rparr> else w)
      in if w_handle w1 \<noteq> -1 then w1\<lparr>w_handle := -1\<rparr> else w1)"

definition Close :: "SharedMemoryWriter \<Rightarrow> SharedMemoryWriter" where
  "Close w =
     (platform_close w)\<lparr>w_name := [], w_size := 0, w_region := False, w_base_ptr := False,
        w_next_data_offset := DATA_SECTIONS_OFFSET\<rparr>"

text \<open>\<open>initialize_region\<close>; \<open>pid\<close> is \<open>getpid()\<close>, \<open>now\<close> is \<open>GetTimestampMicros()\<close>.\<close>

definition initialize_region ::
  "32 word \<Rightarrow> 64 word \<Rightarrow> SharedMemoryWriter \<Rightarrow> SharedMemoryWriter" where
  "initialize_region pid now w =
     (let s0 = mem w;
          s1 = store32 hdr_magic MAGIC s0;
          s2 = store32 hdr_version VERSION s1;
          s3 = store32 hdr_writer_pid pid s2;
          s4 = store32 hdr_reader_pid 0 s3;
          s5 = store64 hdr_last_update_us now s4;
          s6 = store64 hdr_sequence 0 s5;
          s7 = store32 hdr_symbol_count 0 s6;
          s8 = store32 hdr_flags 0 s7;
          s9 = store32 hdr_crc32 0 s8;
          s10 = store32 idx_count 0 s9;
          s11 = memset0 idx_entries sizeof_entries s10
      in w\<lparr>w_region := w_base_ptr w, mem := s11,
            w_next_data_offset := DATA_SECTIONS_OFFSET\<rparr>)"

definition Create ::
  "os_result \<Rightarrow> 32 word \<Rightarrow> 64 word \<Rightarrow> byte list \<Rightarrow> nat \<Rightarrow> SharedMemoryWriter
     \<Rightarrow> WriterError \<times> SharedMemoryWriter" where
  "Create os pid now name sz w =
     (if name = [] then (INVALID_NAME, w)
      else if sz < 4352 \<or> sz > 1024 * 1024 * 1024 then (INVALID_SIZE, w)
      else
        let w1 = (if IsInitialized w then Close w else w);
            w2 = w1\<lparr>w_name := name, w_size := sz\<rparr>
        in case platform_create os w2 of
             (err, w3) \<Rightarrow>
               if err \<noteq> OK then (err, w3)
               else (OK, initialize_region pid now w3))"

definition find_or_add_symbol :: "byte list \<Rightarrow> shm \<Rightarrow> nat option \<times> shm" where
  "find_or_add_symbol symbol s =
     (case Find (bytes s) symbol of
        Some entry \<Rightarrow> (Some entry, s)
      | None \<Rightarrow>
          if unat (load32 (bytes s) idx_count) \<ge> MAX_SYMBOLS then (None, s)
          else (case Add symbol s of
                  (Some entry, s1) \<Rightarrow>
                    (Some entry, store32 hdr_symbol_count (load32 (bytes s1) idx_count) s1)
                | (None, s1) \<Rightarrow> (None, s1)))"

text \<open>\<open>allocate_data_block\<close>: offset 0 is the failure value.\<close>

definition allocate_data_block :: "nat \<Rightarrow> SharedMemoryWriter \<Rightarrow> nat \<times> SharedMemoryWriter" where
  "allocate_data_block sz w =
     (if (w_next_data_offset w + sz) mod 2 ^ 64 > w_size w then (0, w)
      else
        let offset = w_next_data_offset w
        in (offset, w\<lparr>w_next_data_offset := (w_next_data_offset w + sz) mod 2 ^ 64,
                        mem := memset0 offset sz (mem w)\<rparr>))"

definition begin_write :: "shm \<Rightarrow> shm" where
  "begin_write s = store64 hdr_sequence (load64 (bytes s) hdr_sequence + 1) s"

definition end_write :: "64 word \<Rightarrow> shm \<Rightarrow> shm" where
  "end_write now s =
     store64 hdr_last_update_us now
       (store64 hdr_sequence (load64 (bytes s) hdr_sequence + 1) s)"

text \<open>The body of the copy loop: the six fields of \<open>block->candles[i]\<close>, at \<open>p\<close>.\<close>

definition store_candle :: "nat \<Rightarrow> CandleData \<Rightarrow> shm \<Rightarrow> shm" where
  "store_candle p src s =
     store64 (p + 40) (c_volume src)
       (store64 (p + 32) (c_close src)
         (store64 (p + 24) (c_low src)
           (store64 (p + 16) (c_high src)
             (store64 (p + 8) (c_open src)
               (store64 p (timestamp src) s)))))"

fun copy_candles :: "nat \<Rightarrow> CandleData list \<Rightarrow> shm \<Rightarrow> shm" where
  "copy_candles p [] s = s"
| "copy_candles p (src # rest) s = copy_candles (p + sizeof_Candle) rest (store_candle p src s)"

text \<open>
  \<open>WriteCandles\<close>, lines 96 to 121: the block's offset, from a new allocation or the
  entry's recorded one; \<open>None\<close> on the two \<open>WRITE_FAILED\<close> returns.
\<close>

definition place_block ::
  "nat \<Rightarrow> nat \<Rightarrow> SharedMemoryWriter \<Rightarrow> nat option \<times> SharedMemoryWriter" where
  "place_block entry required_size w =
     (if load64 (bytes (mem w)) (ent_data_offset entry) = 0 then
        (case allocate_data_block required_size w of
           (data_offset, w1) \<Rightarrow>
             if data_offset = 0 then (None, w1)
             else (Some data_offset,
                   w1\<lparr>mem := store32 (ent_data_size entry) (of_nat required_size)
                            (store64 (ent_data_offset entry) (of_nat data_offset) (mem w1))\<rparr>))
      else if required_size > unat (load32 (bytes (mem w)) (ent_data_size entry)) then
        (case allocate_data_block required_size w of
           (data_offset, w1) \<Rightarrow>
             if data_offset = 0 then (None, w1)
             else (Some data_offset,
                   w1\<lparr>mem := store32 (ent_data_size entry) (of_nat required_size)
                            (store64 (ent_data_offset entry) (of_nat data_offset) (mem w1))\<rparr>))
      else (Some (unat (load64 (bytes (mem w)) (ent_data_offset entry))), w))"

text \<open>Lines 123 to 150: the block header, the candles, then the entry's count and time.\<close>

definition fill_block ::
  "nat \<Rightarrow> nat \<Rightarrow> byte list \<Rightarrow> byte list \<Rightarrow> CandleData list \<Rightarrow> 64 word \<Rightarrow> shm \<Rightarrow> shm" where
  "fill_block entry block symbol interval candles now s =
     (let s1 = SetSymbol (blk_symbol block) symbol s;
          s2 = SetInterval (blk_interval block) interval s1;
          s3 = store32 (blk_count block) (of_nat (length candles)) s2;
          s4 = store32 (blk_capacity block) (of_nat (length candles)) s3;
          s5 = store64 (blk_start_timestamp block) (timestamp (hd candles)) s4;
          s6 = store64 (blk_end_timestamp block) (timestamp (last candles)) s5;
          s7 = copy_candles (blk_candles block 0) candles s6;
          s8 = store32 (ent_candle_count entry) (of_nat (length candles)) s7
      in store64 (ent_last_update_us entry) now s8)"

text \<open>\<open>t_upd\<close> and \<open>t_end\<close> are the clock readings of line 150 and of \<open>end_write\<close>.\<close>

definition WriteCandles ::
  "byte list \<Rightarrow> byte list \<Rightarrow> CandleData list \<Rightarrow> 64 word \<Rightarrow> 64 word \<Rightarrow> SharedMemoryWriter
     \<Rightarrow> WriterError \<times> SharedMemoryWriter" where
  "WriteCandles symbol interval candles t_upd t_end w =
     (if \<not> IsInitialized w then (NOT_INITIALIZED, w)
      else if candles = [] then (OK, w)
      else if length candles > MAX_CANDLES_PER_SYMBOL then (CANDLE_LIMIT_EXCEEDED, w)
      else
        case find_or_add_symbol symbol (begin_write (mem w)) of
          (None, s1) \<Rightarrow> (SYMBOL_LIMIT_EXCEEDED, w\<lparr>mem := end_write t_end s1\<rparr>)
        | (Some entry, s1) \<Rightarrow>
            (case place_block entry (RequiredSize (of_nat (length candles))) (w\<lparr>mem := s1\<rparr>) of
               (None, w1) \<Rightarrow> (WRITE_FAILED, w1\<lparr>mem := end_write t_end (mem w1)\<rparr>)
             | (Some data_offset, w1) \<Rightarrow>
                 (OK, w1\<lparr>mem := end_write t_end
                      (fill_block entry data_offset symbol interval candles t_upd (mem w1))\<rparr>)))"

text \<open>\<open>GetStats\<close>: the loop summing \<open>candle_count\<close> in \<open>size_t\<close>, from index \<open>i\<close> on.\<close>

function sum_candles :: "(nat \<Rightarrow> byte) \<Rightarrow> nat \<Rightarrow> nat \<Rightarrow> nat" where
  "sum_candles m i acc =
     (if i < unat (load32 m idx_count) then
        sum_candles m (i + 1)
          ((acc + unat (load32 m (ent_candle_count (entry_ptr i)))) mod 2 ^ 64)
      else acc)"
  by pat_completeness auto
termination
  by (relation "measure (\<lambda>(m, i, acc). unat (load32 m idx_count) - i)") auto

declare sum_candles.simps [simp del]

definition GetStats :: "SharedMemoryWriter \<Rightarrow> WriterStats" where
  "GetStats w =
     (if \<not> IsInitialized w then
        \<lparr>total_symbols = 0, total_candles = 0, memory_used = 0, last_write_us = 0,
         write_count = 0\<rparr>
      else
        \<lparr>total_symbols = unat (load32 (bytes (mem w)) idx_count),
         total_candles = sum_candles (bytes (mem w)) 0 0,
         memory_used = w_next_data_offset w,
         last_write_us = load64 (bytes (mem w)) hdr_last_update_us,
         write_count = load64 (bytes (mem w)) hdr_sequence div 2\<rparr>)"

section \<open>Reachable writers and example inputs\<close>

text \<open>
  The writers a caller can hold: the constructed one, and whatever \<open>Create\<close>,
  \<open>WriteCandles\<close> and \<open>Close\<close> return, for any arguments, operating-system answer
  and clock reading.
\<close>

inductive reachable :: "SharedMemoryWriter \<Rightarrow> bool" where
  r_new: "reachable (new_writer s)"
| r_Create: "reachable w \<Longrightarrow> reachable (snd (Create os pid now name sz w))"
| r_WriteCandles:
    "reachable w \<Longrightarrow> reachable (snd (WriteCandles symbol interval candles t_upd t_end w))"
| r_Close: "reachable w \<Longrightarrow> reachable (Close w)"

text \<open>\<open>Header::IsWriting\<close>: \<open>(sequence & 1) != 0\<close>.\<close>

definition IsWriting :: "(nat \<Rightarrow> byte) \<Rightarrow> bool" where
  "IsWriting m \<longleftrightarrow> (load64 m hdr_sequence AND 1) \<noteq> 0"

text \<open>
  What holds of an initialized writer between calls. The sequence is even; the index count is
  at most \<open>MAX_SYMBOLS\<close> and the header repeats it; the cursor is at or after the start of
  the data section, and inside the region once anything was allocated. Of each of the 256
  entries: \<open>symbol[15]\<close> is NUL; an entry not yet in use has no block; a recorded block lies
  in the data section, below the cursor.
\<close>

definition entry_ok :: "SharedMemoryWriter \<Rightarrow> nat \<Rightarrow> bool" where
  "entry_ok w i =
     (let m = bytes (mem w); e = entry_ptr i;
          off = unat (load64 m (ent_data_offset e));
          sz = unat (load32 m (ent_data_size e))
      in load_bytes m (ent_symbol e + 15) 1 = [0] \<and>
         (unat (load32 m idx_count) \<le> i \<longrightarrow> off = 0) \<and>
         (off \<noteq> 0 \<longrightarrow> DATA_SECTIONS_OFFSET \<le> off \<and> off + sz \<le> w_next_data_offset w))"

definition region_ok :: "SharedMemoryWriter \<Rightarrow> bool" where
  "region_ok w =
     (let m = bytes (mem w)
      in \<not> IsWriting m \<and>
         unat (load32 m idx_count) \<le> MAX_SYMBOLS \<and>
         load32 m hdr_symbol_count = load32 m idx_count \<and>
         DATA_SECTIONS_OFFSET \<le> w_next_data_offset w \<and>
         w_size w \<le> 1073741824 \<and>
         (w_next_data_offset w = DATA_SECTIONS_OFFSET \<or> w_next_data_offset w \<le> w_size w) \<and>
         (\<forall>i<MAX_SYMBOLS. entry_ok w i))"

text \<open>
  \<open>find_or_add_symbol\<close> has resolved the symbol to \<open>entries[j]\<close>, leaving the region as
  \<open>s1\<close>: either \<open>Find\<close> returned that entry, or it returned \<open>nullptr\<close> and the entry
  was appended at \<open>j = count\<close>.
\<close>

definition resolved :: "SharedMemoryWriter \<Rightarrow> byte list \<Rightarrow> nat \<Rightarrow> shm \<Rightarrow> bool" where
  "resolved w symbol j s1 \<longleftrightarrow>
     j < MAX_SYMBOLS \<and>
     (let m = bytes (mem w); c = load32 m idx_count
      in (Find m symbol = Some (entry_ptr j) \<and> j < unat c \<and> s1 = begin_write (mem w)) \<or>
         (Find m symbol = None \<and> j = unat c \<and>
          s1 = store32 hdr_symbol_count (c + 1)
                 (SetSymbol (entry_ptr j) symbol (store32 idx_count (c + 1) (begin_write (mem w))))))"




text \<open>Whether every store so far lies inside the first \<open>size_\<close> bytes of the mapping.\<close>

definition stores_within :: "nat \<Rightarrow> shm \<Rightarrow> bool" where
  "stores_within sz s = list_all (\<lambda>(a, n). a + n \<le> sz) (writes s)"

definition in_bounds :: "SharedMemoryWriter \<Rightarrow> bool" where
  "in_bounds w = stores_within (w_size w) (mem w)"

definition zero_stats :: WriterStats where
  "zero_stats =
     \<lparr>total_symbols = 0, total_candles = 0, memory_used = 0, last_write_us = 0,
      write_count = 0\<rparr>"

text \<open>Example inputs: a constructed writer, a region named "t" of a given size, a candle.\<close>

definition zero_mem :: "nat \<Rightarrow> byte" where
  "zero_mem x = 0"

definition ex_new :: SharedMemoryWriter where
  "ex_new = new_writer \<lparr>bytes = zero_mem, writes = []\<rparr>"

definition ex_create :: "nat \<Rightarrow> WriterError \<times> SharedMemoryWriter" where
  "ex_create sz = Create (Mapped 3 zero_mem) 1 1000 [0x74] sz ex_new"

definition ex_candle :: "64 word \<Rightarrow> CandleData" where
  "ex_candle t =
     \<lparr>timestamp = t, c_open = 1, c_high = 2, c_low = 3, c_close = 4, c_volume = 5\<rparr>"

text \<open>A sequence of \<open>WriteCandles\<close> calls on one writer: the results in order, and the
  writer after the last call.\<close>

type_synonym write_call = "byte list \<times> byte list \<times> CandleData list \<times> 64 word \<times> 64 word"

fun WriteCandles_calls ::
  "write_call list \<Rightarrow> SharedMemoryWriter \<Rightarrow> WriterError list \<times> SharedMemoryWriter" where
  "WriteCandles_calls [] w = ([], w)"
| "WriteCandles_calls ((symbol, interval, candles, t_upd, t_end) # calls) w =
     (case WriteCandles symbol interval candles t_upd t_end w of
        (r, w1) \<Rightarrow> (case WriteCandles_calls calls w1 of (rs, w2) \<Rightarrow> (r # rs, w2)))"

definition nonempty_call :: "write_call \<Rightarrow> bool" where
  "nonempty_call c = (case c of (symbol, interval, candles, t_upd, t_end) \<Rightarrow> candles \<noteq> [])"

text \<open>More example inputs: a region of 1 MiB, and one of the smallest size accepted.\<close>

definition ex_region :: SharedMemoryWriter where
  "ex_region = snd (ex_create 1048576)"

definition ex_small :: SharedMemoryWriter where
  "ex_small = snd (ex_create 4352)"

text \<open>
  256 two-byte names without NUL, pairwise different; one call writing one candle under the
  \<open>k\<close>-th name; and the 1 MiB region after these 256 calls.
\<close>

definition ex_name :: "nat \<Rightarrow> byte list" where
  "ex_name k = [of_nat (k mod 16) + 1, of_nat (k div 16) + 1]"

definition ex_call :: "nat \<Rightarrow> write_call" where
  "ex_call k = (ex_name k, [0x31, 0x68], [ex_candle (of_nat k)], 5, 6)"

definition ex_filled :: "nat \<Rightarrow> SharedMemoryWriter" where
  "ex_filled k = snd (WriteCandles_calls (map ex_call [0..<k]) ex_region)"

text \<open>The 17-byte name "BTCUSDT\_PERPETUAL".\<close>

definition ex_long :: "byte list" where
  "ex_long = [0x42, 0x54, 0x43, 0x55, 0x53, 0x44, 0x54, 0x5F,
              0x50, 0x45, 0x52, 0x50, 0x45, 0x54, 0x55, 0x41, 0x4C]"

text \<open>Two writes under that name into the 1 MiB region: two candles, then one.\<close>

definition ex_long_1 :: SharedMemoryWriter where
  "ex_long_1 = snd (WriteCandles ex_long [0x31, 0x68] [ex_candle 1, ex_candle 2] 5 6 ex_region)"

definition ex_long_2 :: SharedMemoryWriter where
  "ex_long_2 = snd (WriteCandles ex_long [0x31, 0x68] [ex_candle 3] 7 8 ex_long_1)"

section \<open>Bytes, loads and stores\<close>

lemmas layout_defs =
  MAX_SYMBOLS_def MAX_CANDLES_PER_SYMBOL_def SYMBOL_NAME_SIZE_def INTERVAL_SIZE_def
  HEADER_OFFSET_def SYMBOL_INDEX_OFFSET_def SYMBOL_INDEX_SIZE_def DATA_SECTIONS_OFFSET_def
  hdr_magic_def hdr_version_def hdr_writer_pid_def hdr_reader_pid_def hdr_last_update_us_def
  hdr_sequence_def hdr_symbol_count_def hdr_flags_def hdr_crc32_def
  sizeof_SymbolIndexEntry_def idx_count_def idx_entries_def sizeof_entries_def entry_ptr_def
  ent_symbol_def ent_data_offset_def ent_data_size_def ent_candle_count_def
  ent_last_update_us_def sizeof_Candle_def sizeof_OHLCVDataBlock_def
  blk_symbol_def blk_interval_def blk_count_def blk_capacity_def blk_start_timestamp_def
  blk_end_timestamp_def blk_candles_def

lemma length_le_bytes [simp]: "length (le_bytes n x) = n"
  by (induction n arbitrary: x) auto

lemma le_nat_le_bytes: "le_nat (le_bytes n x) = x mod 256 ^ n"
proof (induction n arbitrary: x)
  case 0
  then show ?case by simp
next
  case (Suc n)
  have "unat (of_nat (x mod 256) :: byte) = x mod 256"
    by (simp add: unat_of_nat)
  then show ?case
    using Suc [of "x div 256"] by (simp add: mod_mult2_eq)
qed

lemma length_load_bytes [simp]: "length (load_bytes m a n) = n"
  by (simp add: load_bytes_def)

lemma load_bytes_cong:
  "(\<And>x. a \<le> x \<Longrightarrow> x < a + n \<Longrightarrow> m x = m' x) \<Longrightarrow> load_bytes m a n = load_bytes m' a n"
  by (simp add: load_bytes_def)

lemma nth_load_bytes: "i < n \<Longrightarrow> load_bytes m a n ! i = m (a + i)"
  by (simp add: load_bytes_def)

lemma bytes_store_bytes_outside:
  "x < a \<or> a + length bs \<le> x \<Longrightarrow> bytes (store_bytes a bs s) x = bytes s x"
  by (auto simp: store_bytes_def)

lemma bytes_store_bytes_inside:
  "a \<le> x \<Longrightarrow> x < a + length bs \<Longrightarrow> bytes (store_bytes a bs s) x = bs ! (x - a)"
  by (auto simp: store_bytes_def)

lemma load_store_bytes_same:
  "n = length bs \<Longrightarrow> load_bytes (bytes (store_bytes a bs s)) a n = bs"
  by (auto simp: load_bytes_def store_bytes_def intro!: nth_equalityI)

lemma load_store_bytes_disj:
  "b + n \<le> a \<or> a + length bs \<le> b \<Longrightarrow>
   load_bytes (bytes (store_bytes a bs s)) b n = load_bytes (bytes s) b n"
  by (rule load_bytes_cong) (auto simp: store_bytes_def)

lemma of_nat_unat_mod32: "(of_nat (unat (v :: 32 word) mod 4294967296) :: 32 word) = v"
  using unsigned_less [of v, where ?'a = nat] by simp

lemma of_nat_unat_mod64: "(of_nat (unat (v :: 64 word) mod 18446744073709551616) :: 64 word) = v"
  using unsigned_less [of v, where ?'a = nat] by simp

lemma load_store32_same [simp]: "load_bytes (bytes (store32 a v s)) a 4 = le_bytes 4 (unat v)"
  by (simp add: store32_def load_store_bytes_same)

lemma load_store64_same [simp]: "load_bytes (bytes (store64 a v s)) a 8 = le_bytes 8 (unat v)"
  by (simp add: store64_def load_store_bytes_same)

declare le_nat_le_bytes [simp] of_nat_unat_mod32 [simp] of_nat_unat_mod64 [simp]

lemma load_store32_disj:
  "b + n \<le> a \<or> a + 4 \<le> b \<Longrightarrow> load_bytes (bytes (store32 a v s)) b n = load_bytes (bytes s) b n"
  by (simp add: store32_def load_store_bytes_disj)

lemma load_store64_disj:
  "b + n \<le> a \<or> a + 8 \<le> b \<Longrightarrow> load_bytes (bytes (store64 a v s)) b n = load_bytes (bytes s) b n"
  by (simp add: store64_def load_store_bytes_disj)

lemma load_memset0_disj:
  "b + n \<le> a \<or> a + k \<le> b \<Longrightarrow> load_bytes (bytes (memset0 a k s)) b n = load_bytes (bytes s) b n"
  by (simp add: memset0_def load_store_bytes_disj)

lemma load_memset0_inside:
  "a \<le> b \<Longrightarrow> b + n \<le> a + k \<Longrightarrow> load_bytes (bytes (memset0 a k s)) b n = replicate n 0"
  by (auto simp: memset0_def load_bytes_def store_bytes_def intro!: nth_equalityI)

lemma length_strncpy [simp]: "length (strncpy src n) = n"
  by (simp add: strncpy_def)

lemma load_SetSymbol_disj:
  "b + n \<le> p \<or> p + 16 \<le> b \<Longrightarrow> load_bytes (bytes (SetSymbol p symb s)) b n = load_bytes (bytes s) b n"
  by (auto simp: SetSymbol_def SYMBOL_NAME_SIZE_def load_store_bytes_disj)

lemma load_SetInterval_disj:
  "b + n \<le> p \<or> p + 8 \<le> b \<Longrightarrow> load_bytes (bytes (SetInterval p iv s)) b n = load_bytes (bytes s) b n"
  by (auto simp: SetInterval_def INTERVAL_SIZE_def load_store_bytes_disj)

lemma load_store_candle_disj:
  "b + n \<le> p \<or> p + 48 \<le> b \<Longrightarrow> load_bytes (bytes (store_candle p c s)) b n = load_bytes (bytes s) b n"
  by (auto simp: store_candle_def load_store64_disj)

lemma load_copy_candles_disj:
  "b + n \<le> p \<or> p + 48 * length cs \<le> b \<Longrightarrow>
   load_bytes (bytes (copy_candles p cs s)) b n = load_bytes (bytes s) b n"
proof (induction cs arbitrary: p s)
  case Nil
  then show ?case by simp
next
  case (Cons c cs)
  have "load_bytes (bytes (copy_candles (p + 48) cs (store_candle p c s))) b n
        = load_bytes (bytes (store_candle p c s)) b n"
    using Cons.prems by (intro Cons.IH) auto
  also have "\<dots> = load_bytes (bytes s) b n"
    using Cons.prems by (intro load_store_candle_disj) auto
  finally show ?case by (simp add: sizeof_Candle_def)
qed

lemma load_begin_write_disj:
  "b + n \<le> 24 \<or> 32 \<le> b \<Longrightarrow> load_bytes (bytes (begin_write s)) b n = load_bytes (bytes s) b n"
  by (auto simp: begin_write_def load_store64_disj layout_defs)

lemma load_end_write_disj:
  "b + n \<le> 16 \<or> 32 \<le> b \<Longrightarrow> load_bytes (bytes (end_write t s)) b n = load_bytes (bytes s) b n"
  by (auto simp: end_write_def load_store64_disj layout_defs)

lemma load_fill_block_disj:
  "(b + n \<le> d \<or> d + 56 + 48 * length cs \<le> b) \<and> (b + n \<le> e + 28 \<or> e + 40 \<le> b) \<Longrightarrow>
   load_bytes (bytes (fill_block e d symb iv cs t s)) b n = load_bytes (bytes s) b n"
  by (elim conjE disjE; simp add: fill_block_def Let_def layout_defs load_store64_disj
      load_store32_disj load_copy_candles_disj load_SetSymbol_disj load_SetInterval_disj)

lemma seq_begin_write: "load64 (bytes (begin_write s)) hdr_sequence = load64 (bytes s) hdr_sequence + 1"
  by (simp add: begin_write_def)

lemma seq_end_write: "load64 (bytes (end_write t s)) hdr_sequence = load64 (bytes s) hdr_sequence + 1"
  by (simp add: end_write_def load_store64_disj layout_defs)

lemma sum_candles_zero: "unat (load32 m idx_count) = 0 \<Longrightarrow> sum_candles m 0 0 = 0"
  by (subst sum_candles.simps) simp

lemma le_nat_replicate0 [simp]: "le_nat (replicate n 0) = 0"
  by (induction n) auto

lemma ex_create_eval:
  "4352 \<le> sz \<Longrightarrow> sz \<le> 1073741824 \<Longrightarrow>
   ex_create sz = (OK, initialize_region 1 1000
      (ex_new\<lparr>w_name := [0x74], w_size := sz, w_handle := 3, w_base_ptr := True,
          mem := \<lparr>bytes = zero_mem, writes = []\<rparr>\<rparr>))"
  by (simp add: ex_create_def Create_def platform_create_def ex_new_def new_writer_def
      IsInitialized_def)

lemma IsInitialized_ex_create:
  "4352 \<le> sz \<Longrightarrow> sz \<le> 1073741824 \<Longrightarrow> IsInitialized (snd (ex_create sz))"
  by (simp add: ex_create_eval initialize_region_def Let_def IsInitialized_def)

section \<open>The sequence parity and the symbol lookup\<close>

lemma word_and1_add2: "((x :: 64 word) + 2) AND 1 = x AND 1"
  by (simp add: and_one_eq mod_2_eq_odd)

lemma IsWriting_add2:
  "load64 m' hdr_sequence = load64 m hdr_sequence + 2 \<Longrightarrow> IsWriting m' = IsWriting m"
  by (simp only: IsWriting_def word_and1_add2)

lemma IsWriting_zero: "load64 m hdr_sequence = 0 \<Longrightarrow> \<not> IsWriting m"
  by (simp only: IsWriting_def) simp




lemma Find_from_Some:
  "Find_from m symbol i = Some e \<Longrightarrow>
   \<exists>j\<ge>i. j < unat (load32 m idx_count) \<and> j < MAX_SYMBOLS \<and> e = entry_ptr j \<and>
     GetSymbol m (entry_ptr j) = symbol \<and>
     (\<forall>k. i \<le> k \<and> k < j \<longrightarrow> GetSymbol m (entry_ptr k) \<noteq> symbol)"
proof (induction m symbol i rule: Find_from.induct)
  case (1 m symbol i)
  show ?case
  proof (cases "i < unat (load32 m idx_count) \<and> i < MAX_SYMBOLS")
    case False
    with "1.prems" show ?thesis by (simp add: Find_from.simps [of m symbol i])
  next
    case True
    show ?thesis
    proof (cases "GetSymbol m (ent_symbol (entry_ptr i)) = symbol")
      case hit: True
      with True "1.prems" have "e = entry_ptr i"
        by (simp add: Find_from.simps [of m symbol i])
      with True hit show ?thesis
        by (intro exI [of _ i]) (auto simp: ent_symbol_def)
    next
      case miss: False
      with True "1.prems" have "Find_from m symbol (i + 1) = Some e"
        by (simp add: Find_from.simps [of m symbol i])
      from "1.IH" [OF True miss this] obtain j where j: "i + 1 \<le> j"
        "j < unat (load32 m idx_count)" "j < MAX_SYMBOLS" "e = entry_ptr j"
        "GetSymbol m (entry_ptr j) = symbol"
        "\<forall>k. i + 1 \<le> k \<and> k < j \<longrightarrow> GetSymbol m (entry_ptr k) \<noteq> symbol"
        by blast
      have "\<forall>k. i \<le> k \<and> k < j \<longrightarrow> GetSymbol m (entry_ptr k) \<noteq> symbol"
      proof (intro allI impI)
        fix k assume "i \<le> k \<and> k < j"
        then consider "k = i" | "i + 1 \<le> k \<and> k < j" by linarith
        then show "GetSymbol m (entry_ptr k) \<noteq> symbol"
          using miss j(6) by cases (auto simp: ent_symbol_def)
      qed
      with j show ?thesis by (intro exI [of _ j]) auto
    qed
  qed
qed

lemma Find_from_None:
  "Find_from m symbol i = None \<longleftrightarrow>
   (\<forall>j\<ge>i. j < unat (load32 m idx_count) \<and> j < MAX_SYMBOLS \<longrightarrow>
      GetSymbol m (entry_ptr j) \<noteq> symbol)"
proof (induction m symbol i rule: Find_from.induct)
  case (1 m symbol i)
  show ?case
  proof (cases "i < unat (load32 m idx_count) \<and> i < MAX_SYMBOLS")
    case False
    then show ?thesis by (auto simp: Find_from.simps [of m symbol i])
  next
    case True
    show ?thesis
    proof (cases "GetSymbol m (ent_symbol (entry_ptr i)) = symbol")
      case hit: True
      with True show ?thesis
        by (auto simp: Find_from.simps [of m symbol i] ent_symbol_def)
    next
      case miss: False
      define Q where "Q j \<longleftrightarrow> (j < unat (load32 m idx_count) \<and> j < MAX_SYMBOLS \<longrightarrow>
               GetSymbol m (entry_ptr j) \<noteq> symbol)" for j
      have Qi: "Q i" using miss by (simp add: Q_def ent_symbol_def)
      have "(\<forall>j\<ge>i. Q j) \<longleftrightarrow> (\<forall>j\<ge>i + 1. Q j)"
      proof
        assume "\<forall>j\<ge>i. Q j"
        then show "\<forall>j\<ge>i + 1. Q j" by simp
      next
        assume a: "\<forall>j\<ge>i + 1. Q j"
        show "\<forall>j\<ge>i. Q j"
        proof (intro allI impI)
          fix j assume "i \<le> j"
          then consider "j = i" | "i + 1 \<le> j" by linarith
          then show "Q j" using Qi a by cases auto
        qed
      qed
      then have "(\<forall>j\<ge>i. j < unat (load32 m idx_count) \<and> j < MAX_SYMBOLS \<longrightarrow>
               GetSymbol m (entry_ptr j) \<noteq> symbol) \<longleftrightarrow>
            (\<forall>j\<ge>i + 1. j < unat (load32 m idx_count) \<and> j < MAX_SYMBOLS \<longrightarrow>
               GetSymbol m (entry_ptr j) \<noteq> symbol)"
        unfolding Q_def .
      with "1.IH" [OF True miss] True miss show ?thesis
        by (simp add: Find_from.simps [of m symbol i])
    qed
  qed
qed

lemma Find_Some:
  "Find m symbol = Some e \<Longrightarrow>
   \<exists>j. j < unat (load32 m idx_count) \<and> j < MAX_SYMBOLS \<and> e = entry_ptr j \<and>
     GetSymbol m (entry_ptr j) = symbol \<and> (\<forall>k<j. GetSymbol m (entry_ptr k) \<noteq> symbol)"
  unfolding Find_def by (drule Find_from_Some) auto

lemma Find_None:
  "Find m symbol = None \<longleftrightarrow>
   (\<forall>j. j < unat (load32 m idx_count) \<and> j < MAX_SYMBOLS \<longrightarrow> GetSymbol m (entry_ptr j) \<noteq> symbol)"
  unfolding Find_def by (simp add: Find_from_None)

lemma Find_first:
  assumes "j < unat (load32 m idx_count)" "j < MAX_SYMBOLS" "GetSymbol m (entry_ptr j) = symbol"
    "\<forall>k<j. GetSymbol m (entry_ptr k) \<noteq> symbol"
  shows "Find m symbol = Some (entry_ptr j)"
proof (cases "Find m symbol")
  case None
  with assms show ?thesis by (auto simp: Find_None)
next
  case (Some e)
  from Find_Some [OF this] obtain j' where j': "j' < unat (load32 m idx_count)" "j' < MAX_SYMBOLS"
    "e = entry_ptr j'" "GetSymbol m (entry_ptr j') = symbol"
    "\<forall>k<j'. GetSymbol m (entry_ptr k) \<noteq> symbol" by blast
  have "j' = j"
  proof (rule ccontr)
    assume "j' \<noteq> j"
    then consider "j' < j" | "j < j'" by linarith
    then show False
    proof cases
      case 1
      with assms(4) j'(4) show False by blast
    next
      case 2
      with j'(5) assms(3) show False by blast
    qed
  qed
  with Some j' show ?thesis by simp
qed

lemma length_GetSymbol: "length (GetSymbol m p) \<le> 16"
  unfolding GetSymbol_def strn_string_def SYMBOL_NAME_SIZE_def
  by (rule order_trans [OF length_takeWhile_le]) simp

lemma Find_long_name:
  assumes "length symbol > 16"
  shows "Find m symbol = None"
  unfolding Find_None
proof (intro allI impI notI)
  fix j assume "GetSymbol m (entry_ptr j) = symbol"
  with length_GetSymbol [of m "entry_ptr j"] assms show False by simp
qed

section \<open>The steps of WriteCandles\<close>

lemmas frames = load_store_bytes_disj load_store32_disj load_store64_disj load_memset0_disj
  load_SetSymbol_disj load_SetInterval_disj load_copy_candles_disj load_begin_write_disj
  load_end_write_disj load_fill_block_disj

lemma unat_count_succ:
  "unat (c :: 32 word) < 256 \<Longrightarrow> unat (c + 1) = unat c + 1"
  by (simp add: unat_word_ariths)

lemma find_or_add_symbol_cases:
  fixes s symbol
  defines "c \<equiv> load32 (bytes s) idx_count"
  obtains
    (found) j where "j < unat c" "j < MAX_SYMBOLS" "Find (bytes s) symbol = Some (entry_ptr j)"
      "find_or_add_symbol symbol s = (Some (entry_ptr j), s)"
  | (full) "Find (bytes s) symbol = None" "MAX_SYMBOLS \<le> unat c"
      "find_or_add_symbol symbol s = (None, s)"
  | (added) "Find (bytes s) symbol = None" "unat c < MAX_SYMBOLS"
      "find_or_add_symbol symbol s =
         (Some (entry_ptr (unat c)),
          store32 hdr_symbol_count (c + 1)
            (SetSymbol (entry_ptr (unat c)) symbol (store32 idx_count (c + 1) s)))"
proof (cases "Find (bytes s) symbol")
  case (Some e)
  from Find_Some [OF this] obtain j where "j < unat c" "j < MAX_SYMBOLS" "e = entry_ptr j"
    unfolding c_def by blast
  with Some show ?thesis
    by (intro found [of j]) (simp_all add: find_or_add_symbol_def)
next
  case None
  show ?thesis
  proof (cases "MAX_SYMBOLS \<le> unat c")
    case True
    with None show ?thesis
      by (intro full) (simp_all add: find_or_add_symbol_def c_def)
  next
    case False
    then have lt: "unat c < MAX_SYMBOLS" by simp
    have "load32 (bytes (SetSymbol (entry_ptr (unat c)) symbol (store32 idx_count (c + 1) s)))
            idx_count = c + 1"
      by (simp add: frames layout_defs)
    with None lt show ?thesis
      by (intro added) (simp_all add: find_or_add_symbol_def Add_def c_def Let_def ent_symbol_def)
  qed
qed

lemma place_block_cases [consumes 2]:
  fixes w e req
  defines "m \<equiv> bytes (mem w)"
  defines "off \<equiv> load64 m (ent_data_offset e)"
  defines "sz \<equiv> unat (load32 m (ent_data_size e))"
  defines "nxt \<equiv> w_next_data_offset w"
  assumes "nxt + req < 2 ^ 64" "nxt \<noteq> 0"
  obtains
    (reuse) "off \<noteq> 0" "req \<le> sz" "place_block e req w = (Some (unat off), w)"
  | (fail) "off = 0 \<or> sz < req" "w_size w < nxt + req" "place_block e req w = (None, w)"
  | (alloc) "off = 0 \<or> sz < req" "nxt + req \<le> w_size w"
      "place_block e req w =
         (Some nxt,
          w\<lparr>w_next_data_offset := nxt + req,
            mem := store32 (ent_data_size e) (of_nat req)
                     (store64 (ent_data_offset e) (of_nat nxt) (memset0 nxt req (mem w)))\<rparr>)"
proof -
  have wrap: "(nxt + req) mod 2 ^ 64 = nxt + req"
    using assms by simp
  consider "off \<noteq> 0 \<and> req \<le> sz" | "(off = 0 \<or> sz < req) \<and> w_size w < nxt + req"
    | "(off = 0 \<or> sz < req) \<and> nxt + req \<le> w_size w"
    by linarith
  then show ?thesis
  proof cases
    case 1
    then show ?thesis
      by (intro reuse) (simp_all add: place_block_def off_def sz_def m_def)
  next
    case 2
    then show ?thesis
      using wrap
      by (intro fail) (auto simp: place_block_def allocate_data_block_def off_def sz_def m_def
          nxt_def)
  next
    case 3
    then show ?thesis
      using wrap \<open>nxt \<noteq> 0\<close>
      by (intro alloc) (auto simp: place_block_def allocate_data_block_def off_def sz_def m_def
          nxt_def Let_def)
  qed
qed

lemma Find_eqI:
  assumes c: "load32 m' idx_count = load32 m idx_count"
    and g: "\<And>j. j < MAX_SYMBOLS \<Longrightarrow> GetSymbol m' (entry_ptr j) = GetSymbol m (entry_ptr j)"
  shows "Find m' symbol = Find m symbol"
proof (cases "Find m symbol")
  case None
  then have "Find m' symbol = None" using c g by (simp add: Find_None)
  with None show ?thesis by simp
next
  case (Some e)
  from Find_Some [OF this] obtain j where j: "j < unat (load32 m idx_count)" "j < MAX_SYMBOLS"
    "e = entry_ptr j" "GetSymbol m (entry_ptr j) = symbol"
    "\<forall>k<j. GetSymbol m (entry_ptr k) \<noteq> symbol" by blast
  have "Find m' symbol = Some (entry_ptr j)"
    using j c g by (intro Find_first) auto
  with Some j show ?thesis by simp
qed

lemma GetSymbol_eqI:
  "load_bytes m' p 16 = load_bytes m p 16 \<Longrightarrow> GetSymbol m' p = GetSymbol m p"
  by (simp add: GetSymbol_def strn_string_def SYMBOL_NAME_SIZE_def)

lemma Find_begin_write: "Find (bytes (begin_write s)) symbol = Find (bytes s) symbol"
  by (intro Find_eqI GetSymbol_eqI) (simp_all add: frames layout_defs)

lemma RequiredSize_candles:
  "length (candles :: CandleData list) \<le> MAX_CANDLES_PER_SYMBOL \<Longrightarrow>
   RequiredSize (of_nat (length candles)) = 56 + 48 * length candles"
  by (simp add: RequiredSize_def layout_defs unat_of_nat)

lemma resolved_frame:
  assumes "resolved w symbol j s1"
    and "b + n \<le> 24 \<or> 36 \<le> b" "b + n \<le> 256 \<or> 260 \<le> b"
    and "b + n \<le> entry_ptr j \<or> entry_ptr j + 16 \<le> b"
  shows "load_bytes (bytes s1) b n = load_bytes (bytes (mem w)) b n"
  using assms unfolding resolved_def Let_def
  by (elim conjE disjE; simp add: frames layout_defs)

lemma WriteCandles_cases [consumes 4]:
  fixes w symbol interval candles t_upd t_end
  defines "m \<equiv> bytes (mem w)"
  defines "req \<equiv> 56 + 48 * length candles"
  defines "nxt \<equiv> w_next_data_offset w"
  assumes ok: "region_ok w" and init: "IsInitialized w"
    and ne: "candles \<noteq> []" and le: "length candles \<le> MAX_CANDLES_PER_SYMBOL"
  obtains
    (limit) "Find m symbol = None" "unat (load32 m idx_count) = MAX_SYMBOLS"
      "WriteCandles symbol interval candles t_upd t_end w
         = (SYMBOL_LIMIT_EXCEEDED, w\<lparr>mem := end_write t_end (begin_write (mem w))\<rparr>)"
  | (failed) j s1 where "resolved w symbol j s1"
      "load64 m (entry_ptr j + 16) = 0 \<or> unat (load32 m (entry_ptr j + 24)) < req"
      "w_size w < nxt + req"
      "WriteCandles symbol interval candles t_upd t_end w
         = (WRITE_FAILED, w\<lparr>mem := end_write t_end s1\<rparr>)"
  | (reused) j s1 where "resolved w symbol j s1"
      "load64 m (entry_ptr j + 16) \<noteq> 0" "req \<le> unat (load32 m (entry_ptr j + 24))"
      "WriteCandles symbol interval candles t_upd t_end w
         = (OK, w\<lparr>mem := end_write t_end
               (fill_block (entry_ptr j) (unat (load64 m (entry_ptr j + 16)))
                  symbol interval candles t_upd s1)\<rparr>)"
  | (allocated) j s1 where "resolved w symbol j s1"
      "load64 m (entry_ptr j + 16) = 0 \<or> unat (load32 m (entry_ptr j + 24)) < req"
      "nxt + req \<le> w_size w"
      "WriteCandles symbol interval candles t_upd t_end w
         = (OK, w\<lparr>w_next_data_offset := nxt + req,
                 mem := end_write t_end
                   (fill_block (entry_ptr j) nxt symbol interval candles t_upd
                      (store32 (entry_ptr j + 24) (of_nat req)
                         (store64 (entry_ptr j + 16) (of_nat nxt) (memset0 nxt req s1))))\<rparr>)"
proof -
  have rq: "RequiredSize (of_nat (length candles)) = req"
    using le by (simp add: RequiredSize_candles req_def)
  have cnt: "unat (load32 m idx_count) \<le> MAX_SYMBOLS"
    and nx: "DATA_SECTIONS_OFFSET \<le> nxt" "nxt \<le> 1073741824"
    using ok by (auto simp: region_ok_def Let_def m_def nxt_def layout_defs)
  have nowrap: "nxt + req < 2 ^ 64" "nxt \<noteq> 0"
    using nx le by (simp_all add: req_def layout_defs)
  have cb: "load32 (bytes (begin_write (mem w))) idx_count = load32 m idx_count"
    by (simp add: frames layout_defs m_def)
  have W: "WriteCandles symbol interval candles t_upd t_end w =
      (case find_or_add_symbol symbol (begin_write (mem w)) of
          (None, s1) \<Rightarrow> (SYMBOL_LIMIT_EXCEEDED, w\<lparr>mem := end_write t_end s1\<rparr>)
        | (Some entry, s1) \<Rightarrow>
            (case place_block entry (RequiredSize (of_nat (length candles))) (w\<lparr>mem := s1\<rparr>) of
               (None, w1) \<Rightarrow> (WRITE_FAILED, w1\<lparr>mem := end_write t_end (mem w1)\<rparr>)
             | (Some data_offset, w1) \<Rightarrow>
                 (OK, w1\<lparr>mem := end_write t_end
                      (fill_block entry data_offset symbol interval candles t_upd (mem w1))\<rparr>)))"
    using init ne le by (simp add: WriteCandles_def)
  have main: thesis
    if res: "resolved w symbol j s1"
      and fa: "find_or_add_symbol symbol (begin_write (mem w)) = (Some (entry_ptr j), s1)"
    for j s1
  proof -
    have j: "j < MAX_SYMBOLS" using res by (simp add: resolved_def)
    have off: "load64 (bytes s1) (entry_ptr j + 16) = load64 m (entry_ptr j + 16)"
      and sz: "load32 (bytes s1) (entry_ptr j + 24) = load32 m (entry_ptr j + 24)"
      unfolding m_def
      by (subst resolved_frame [OF res]; simp add: layout_defs)+
    have nw: "w_next_data_offset (w\<lparr>mem := s1\<rparr>) + req < 2 ^ 64"
      "w_next_data_offset (w\<lparr>mem := s1\<rparr>) \<noteq> 0"
      using nowrap by (simp_all add: nxt_def)
    from nw show thesis
    proof (cases rule: place_block_cases [where e = "entry_ptr j"])
      case reuse
      then show ?thesis
        using res by (intro reused [of j s1]) (simp_all add: W fa rq off sz ent_data_offset_def ent_data_size_def)
    next
      case fail
      then show ?thesis
        using res by (intro failed [of j s1]) (simp_all add: W fa rq off sz nxt_def ent_data_offset_def ent_data_size_def)
    next
      case alloc
      then show ?thesis
        using res
        by (intro allocated [of j s1])
           (simp_all add: W fa rq off sz nxt_def ent_data_offset_def ent_data_size_def)
    qed
  qed
  show thesis
  proof (cases rule: find_or_add_symbol_cases [of "begin_write (mem w)" symbol])
    case (found j)
    then have "resolved w symbol j (begin_write (mem w))"
      by (simp add: resolved_def Let_def Find_begin_write cb m_def)
    with found show ?thesis by (intro main [of j "begin_write (mem w)"]) simp_all
  next
    case full
    with cnt show ?thesis
      by (intro limit) (simp_all add: Find_begin_write cb W m_def)
  next
    case added
    let ?c = "load32 m idx_count"
    let ?s1 = "store32 hdr_symbol_count (?c + 1)
                 (SetSymbol (entry_ptr (unat ?c)) symbol
                    (store32 idx_count (?c + 1) (begin_write (mem w))))"
    from added have "resolved w symbol (unat ?c) ?s1"
      by (simp add: resolved_def Let_def Find_begin_write cb m_def)
    with added show ?thesis
      by (intro main [of "unat ?c" ?s1]) (simp_all add: cb)
  qed
qed

lemma resolved_sequence:
  "resolved w symbol j s1 \<Longrightarrow>
   load64 (bytes s1) hdr_sequence = load64 (bytes (mem w)) hdr_sequence + 1"
  unfolding resolved_def Let_def
  by (elim conjE disjE; simp add: frames layout_defs seq_begin_write [unfolded layout_defs, simplified])

lemma region_ok_entry:
  assumes "region_ok w" "j < MAX_SYMBOLS" "load64 (bytes (mem w)) (entry_ptr j + 16) \<noteq> 0"
  shows "16640 \<le> unat (load64 (bytes (mem w)) (entry_ptr j + 16))"
    and "unat (load64 (bytes (mem w)) (entry_ptr j + 16))
          + unat (load32 (bytes (mem w)) (entry_ptr j + 24)) \<le> w_next_data_offset w"
  using assms unfolding region_ok_def entry_ok_def Let_def
  by (auto simp: layout_defs unat_eq_0)

lemma region_ok_cursor:
  assumes "region_ok w"
  shows "16640 \<le> w_next_data_offset w"
  using assms unfolding region_ok_def Let_def by (simp add: layout_defs)

lemma WriteCandles_sequence:
  assumes ok: "region_ok w" and init: "IsInitialized w"
    and ne: "candles \<noteq> []" and le: "length candles \<le> MAX_CANDLES_PER_SYMBOL"
  shows "load64 (bytes (mem (snd (WriteCandles symbol interval candles t_upd t_end w)))) hdr_sequence
         = load64 (bytes (mem w)) hdr_sequence + 2"
  using ok init ne le
proof (cases rule: WriteCandles_cases [where symbol = symbol and interval = interval
      and t_upd = t_upd and t_end = t_end])
  case limit
  then show ?thesis by (simp add: seq_end_write seq_begin_write)
next
  case (failed j s1)
  then show ?thesis by (simp add: seq_end_write resolved_sequence)
next
  case (reused j s1)
  have j: "j < MAX_SYMBOLS" using reused(1) by (simp add: resolved_def)
  note e = region_ok_entry [OF ok j reused(2)]
  have "load64 (bytes (fill_block (entry_ptr j)
          (unat (load64 (bytes (mem w)) (entry_ptr j + 16))) symbol interval candles t_upd s1))
          hdr_sequence = load64 (bytes s1) hdr_sequence"
    using e by (simp add: frames layout_defs)
  with reused show ?thesis by (simp add: seq_end_write resolved_sequence)
next
  case (allocated j s1)
  note n = region_ok_cursor [OF ok]
  have "load64 (bytes (fill_block (entry_ptr j) (w_next_data_offset w) symbol interval candles
          t_upd
          (store32 (entry_ptr j + 24) (of_nat (56 + 48 * length candles))
             (store64 (entry_ptr j + 16) (of_nat (w_next_data_offset w))
                (memset0 (w_next_data_offset w) (56 + 48 * length candles) s1)))))
          hdr_sequence = load64 (bytes s1) hdr_sequence"
    using n by (simp add: frames layout_defs)
  with allocated show ?thesis by (simp add: seq_end_write resolved_sequence)
qed

section \<open>The invariant of an initialized writer\<close>

lemma entry_ptr_bounds: "i < MAX_SYMBOLS \<Longrightarrow> 264 \<le> entry_ptr i \<and> entry_ptr i + 40 \<le> 10504"
  by (simp add: layout_defs)

lemma load_SetSymbol_nul: "load_bytes (bytes (SetSymbol p symb s)) (p + 15) (Suc 0) = [0]"
  by (simp add: SetSymbol_def SYMBOL_NAME_SIZE_def load_store_bytes_same)

lemma resolved_index:
  assumes ok: "region_ok w" and res: "resolved w symbol j s1"
  shows "unat (load32 (bytes (mem w)) idx_count) \<le> unat (load32 (bytes s1) idx_count)"
    and "unat (load32 (bytes s1) idx_count) \<le> MAX_SYMBOLS"
    and "j < unat (load32 (bytes s1) idx_count)"
    and "load32 (bytes s1) hdr_symbol_count = load32 (bytes s1) idx_count"
proof -
  let ?c = "load32 (bytes (mem w)) idx_count"
  have c: "unat ?c \<le> MAX_SYMBOLS" and sc: "load32 (bytes (mem w)) hdr_symbol_count = ?c"
    using ok by (simp_all add: region_ok_def Let_def)
  from res consider
    (found) "j < unat ?c" "s1 = begin_write (mem w)"
    | (added) "j = unat ?c" "j < MAX_SYMBOLS"
      "s1 = store32 hdr_symbol_count (?c + 1)
              (SetSymbol (entry_ptr j) symbol (store32 idx_count (?c + 1) (begin_write (mem w))))"
    by (auto simp: resolved_def Let_def)
  then have "unat ?c \<le> unat (load32 (bytes s1) idx_count)
      \<and> unat (load32 (bytes s1) idx_count) \<le> MAX_SYMBOLS
      \<and> j < unat (load32 (bytes s1) idx_count)
      \<and> load32 (bytes s1) hdr_symbol_count = load32 (bytes s1) idx_count"
  proof cases
    case found
    have "load32 (bytes s1) idx_count = ?c" "load32 (bytes s1) hdr_symbol_count = ?c"
      using sc by (simp_all add: found frames layout_defs)
    with found c show ?thesis by simp
  next
    case added
    have u: "unat (?c + 1) = unat ?c + 1"
      using added by (intro unat_count_succ) (simp add: layout_defs)
    have "load32 (bytes s1) idx_count = ?c + 1" "load32 (bytes s1) hdr_symbol_count = ?c + 1"
      using added(2) by (simp_all add: added(3) frames layout_defs)
    with added u show ?thesis by (simp add: layout_defs)
  qed
  then show "unat ?c \<le> unat (load32 (bytes s1) idx_count)"
    and "unat (load32 (bytes s1) idx_count) \<le> MAX_SYMBOLS"
    and "j < unat (load32 (bytes s1) idx_count)"
    and "load32 (bytes s1) hdr_symbol_count = load32 (bytes s1) idx_count"
    by simp_all
qed

lemma resolved_nul:
  assumes ok: "region_ok w" and res: "resolved w symbol j s1" and i: "i < MAX_SYMBOLS"
  shows "load_bytes (bytes s1) (entry_ptr i + 15) (Suc 0) = [0]"
proof -
  have old: "load_bytes (bytes (mem w)) (entry_ptr i + 15) (Suc 0) = [0]"
    using ok i by (simp add: region_ok_def entry_ok_def Let_def ent_symbol_def)
  let ?c = "load32 (bytes (mem w)) idx_count"
  from res consider
    (found) "s1 = begin_write (mem w)"
    | (added) "j < MAX_SYMBOLS"
      "s1 = store32 hdr_symbol_count (?c + 1)
              (SetSymbol (entry_ptr j) symbol (store32 idx_count (?c + 1) (begin_write (mem w))))"
    by (auto simp: resolved_def Let_def)
  then show ?thesis
  proof cases
    case found
    with old i show ?thesis by (simp add: frames layout_defs)
  next
    case added
    show ?thesis
    proof (cases "i = j")
      case True
      have "load_bytes (bytes s1) (entry_ptr j + 15) (Suc 0)
            = load_bytes (bytes (SetSymbol (entry_ptr j) symbol
                (store32 idx_count (?c + 1) (begin_write (mem w))))) (entry_ptr j + 15) (Suc 0)"
        unfolding added(2) using added(1)
        by (intro load_store32_disj) (simp add: layout_defs)
      then have "load_bytes (bytes s1) (entry_ptr j + 15) (Suc 0) = [0]"
        by (simp only: load_SetSymbol_nul)
      with True show ?thesis by simp
    next
      case False
      then consider "i < j" | "j < i" by linarith
      then show ?thesis
        using old i added(1) by cases (simp_all add: added(2) frames layout_defs)
    qed
  qed
qed

lemma resolved_entry_fields:
  assumes res: "resolved w symbol j s1" and i: "i < MAX_SYMBOLS"
    and b: "entry_ptr i + 16 \<le> b" "b + n \<le> entry_ptr i + 40"
  shows "load_bytes (bytes s1) b n = load_bytes (bytes (mem w)) b n"
proof -
  have j: "j < MAX_SYMBOLS" using res by (simp add: resolved_def)
  consider "i < j" | "i = j" | "j < i" by linarith
  then show ?thesis
    using i j b by cases (intro resolved_frame [OF res]; simp add: layout_defs)+
qed

lemma region_ok_final:
  assumes ok: "region_ok w" and res: "resolved w symbol j s1"
    and cursor: "w_next_data_offset w \<le> n'" "n' = DATA_SECTIONS_OFFSET \<or> n' \<le> w_size w"
    and seq: "\<not> IsWriting (bytes s')"
    and cnt: "load_bytes (bytes s') idx_count 4 = load_bytes (bytes s1) idx_count 4"
    and scnt: "load_bytes (bytes s') hdr_symbol_count 4 = load_bytes (bytes s1) hdr_symbol_count 4"
    and others: "\<And>i b n. i < MAX_SYMBOLS \<Longrightarrow> i \<noteq> j \<Longrightarrow> entry_ptr i \<le> b \<Longrightarrow>
        b + n \<le> entry_ptr i + 40 \<Longrightarrow> load_bytes (bytes s') b n = load_bytes (bytes s1) b n"
    and nul: "load_bytes (bytes s') (entry_ptr j + 15) (Suc 0) = load_bytes (bytes s1) (entry_ptr j + 15) (Suc 0)"
    and block: "unat (load64 (bytes s') (entry_ptr j + 16)) \<noteq> 0 \<longrightarrow>
        DATA_SECTIONS_OFFSET \<le> unat (load64 (bytes s') (entry_ptr j + 16)) \<and>
        unat (load64 (bytes s') (entry_ptr j + 16)) + unat (load32 (bytes s') (entry_ptr j + 24))
          \<le> n'"
  shows "region_ok (w\<lparr>w_next_data_offset := n', mem := s'\<rparr>)"
proof -
  let ?w' = "w\<lparr>w_next_data_offset := n', mem := s'\<rparr>"
  note ri = resolved_index [OF ok res]
  have j: "j < MAX_SYMBOLS" using res by (simp add: resolved_def)
  have "entry_ok ?w' i" if i: "i < MAX_SYMBOLS" for i
  proof (cases "i = j")
    case True
    show ?thesis
      using block ri(3) resolved_nul [OF ok res j]
      by (simp add: entry_ok_def Let_def True cnt nul ent_symbol_def ent_data_offset_def
          ent_data_size_def)
  next
    case False
    have old: "entry_ok w i"
      using ok i by (simp add: region_ok_def Let_def)
    have f1: "load_bytes (bytes s') (entry_ptr i + 15) (Suc 0) = [0]"
      using others [OF i False, of "entry_ptr i + 15" "Suc 0"] resolved_nul [OF ok res i] by simp
    have f2: "load_bytes (bytes s') (entry_ptr i + 16) 8
              = load_bytes (bytes (mem w)) (entry_ptr i + 16) 8"
      using others [OF i False, of "entry_ptr i + 16" 8]
        resolved_entry_fields [OF res i, of "entry_ptr i + 16" 8] by simp
    have f3: "load_bytes (bytes s') (entry_ptr i + 24) 4
              = load_bytes (bytes (mem w)) (entry_ptr i + 24) 4"
      using others [OF i False, of "entry_ptr i + 24" 4]
        resolved_entry_fields [OF res i, of "entry_ptr i + 24" 4] by simp
    show ?thesis
      using old ri(1) cursor(1)
      by (auto simp: entry_ok_def Let_def f1 f2 f3 cnt ent_symbol_def ent_data_offset_def
          ent_data_size_def)
  qed
  moreover have "w_size w \<le> 1073741824" "DATA_SECTIONS_OFFSET \<le> w_next_data_offset w"
    using ok by (simp_all add: region_ok_def Let_def)
  ultimately show ?thesis
    using seq ri(2,4) cursor
    by (simp add: region_ok_def Let_def cnt scnt)
qed

lemma region_ok_header_only:
  assumes ok: "region_ok w"
    and seq: "\<not> IsWriting (bytes s')"
    and same: "\<And>b n. 32 \<le> b \<Longrightarrow> load_bytes (bytes s') b n = load_bytes (bytes (mem w)) b n"
  shows "region_ok (w\<lparr>mem := s'\<rparr>)"
  using ok seq
  by (simp add: region_ok_def entry_ok_def Let_def same layout_defs)

lemma unat_of_nat_offset: "n \<le> 1073741824 \<Longrightarrow> unat (of_nat n :: 64 word) = n"
  by (simp add: unat_of_nat)

lemma unat_of_nat_size:
  "length (cs :: CandleData list) \<le> MAX_CANDLES_PER_SYMBOL \<Longrightarrow>
   unat (of_nat (56 + 48 * length cs) :: 32 word) = 56 + 48 * length cs"
  by (subst unat_of_nat) (simp add: layout_defs)

lemma WriteCandles_region_ok:
  assumes ok: "region_ok w" and init: "IsInitialized w"
  shows "region_ok (snd (WriteCandles symbol interval candles t_upd t_end w))"
proof (cases "candles \<noteq> [] \<and> length candles \<le> MAX_CANDLES_PER_SYMBOL")
  case False
  with ok init show ?thesis by (auto simp: WriteCandles_def)
next
  case True
  then have ne: "candles \<noteq> []" and le: "length candles \<le> MAX_CANDLES_PER_SYMBOL" by simp_all
  note sq = WriteCandles_sequence [OF ok init ne le, of symbol interval t_upd t_end]
  have ev: "\<not> IsWriting (bytes (mem (snd (WriteCandles symbol interval candles t_upd t_end w))))"
    using ok IsWriting_add2 [OF sq] by (simp add: region_ok_def Let_def)
  note nx = region_ok_cursor [OF ok]
  have nx2: "w_next_data_offset w \<le> 1073741824"
    using ok by (auto simp: region_ok_def Let_def layout_defs)
  have cur: "w_next_data_offset w = DATA_SECTIONS_OFFSET \<or> w_next_data_offset w \<le> w_size w"
    using ok by (simp add: region_ok_def Let_def)
  from ok init ne le show ?thesis
  proof (cases rule: WriteCandles_cases [where symbol = symbol and interval = interval
        and t_upd = t_upd and t_end = t_end])
    case limit
    have "region_ok (w\<lparr>mem := end_write t_end (begin_write (mem w))\<rparr>)"
      using ev
      by (intro region_ok_header_only [OF ok]) (simp_all add: limit frames)
    with limit show ?thesis by simp
  next
    case (failed j s1)
    have j: "j < MAX_SYMBOLS" using failed(1) by (simp add: resolved_def)
    have blk: "load64 (bytes (end_write t_end s1)) (entry_ptr j + 16)
                 = load64 (bytes (mem w)) (entry_ptr j + 16)"
      "load32 (bytes (end_write t_end s1)) (entry_ptr j + 24)
                 = load32 (bytes (mem w)) (entry_ptr j + 24)"
      using j by (simp_all add: frames resolved_entry_fields [OF failed(1) j] layout_defs)
    have "region_ok (w\<lparr>w_next_data_offset := w_next_data_offset w, mem := end_write t_end s1\<rparr>)"
    proof (rule region_ok_final [OF ok failed(1)])
      show "\<not> IsWriting (bytes (end_write t_end s1))"
        using ev by (simp add: failed)
      show "unat (load64 (bytes (end_write t_end s1)) (entry_ptr j + 16)) \<noteq> 0 \<longrightarrow>
        DATA_SECTIONS_OFFSET \<le> unat (load64 (bytes (end_write t_end s1)) (entry_ptr j + 16)) \<and>
        unat (load64 (bytes (end_write t_end s1)) (entry_ptr j + 16))
          + unat (load32 (bytes (end_write t_end s1)) (entry_ptr j + 24)) \<le> w_next_data_offset w"
        unfolding blk using region_ok_entry [OF ok j] by (auto simp: unat_eq_0 layout_defs)
    qed (use cur j in \<open>simp_all add: frames layout_defs\<close>)
    with failed show ?thesis by simp
  next
    case (reused j s1)
    have j: "j < MAX_SYMBOLS" using reused(1) by (simp add: resolved_def)
    note e = region_ok_entry [OF ok j reused(2)]
    let ?d = "unat (load64 (bytes (mem w)) (entry_ptr j + 16))"
    let ?s' = "end_write t_end (fill_block (entry_ptr j) ?d symbol interval candles t_upd s1)"
    have blk: "load64 (bytes ?s') (entry_ptr j + 16) = load64 (bytes (mem w)) (entry_ptr j + 16)"
      "load32 (bytes ?s') (entry_ptr j + 24) = load32 (bytes (mem w)) (entry_ptr j + 24)"
      using j e by (simp_all add: frames resolved_entry_fields [OF reused(1) j] layout_defs)
    have "region_ok (w\<lparr>w_next_data_offset := w_next_data_offset w, mem := ?s'\<rparr>)"
    proof (rule region_ok_final [OF ok reused(1)])
      show "\<not> IsWriting (bytes ?s')"
        using ev by (simp add: reused)
      show "unat (load64 (bytes ?s') (entry_ptr j + 16)) \<noteq> 0 \<longrightarrow>
        DATA_SECTIONS_OFFSET \<le> unat (load64 (bytes ?s') (entry_ptr j + 16)) \<and>
        unat (load64 (bytes ?s') (entry_ptr j + 16)) + unat (load32 (bytes ?s') (entry_ptr j + 24))
          \<le> w_next_data_offset w"
        unfolding blk using e by (simp add: layout_defs)
      show "load_bytes (bytes ?s') b n = load_bytes (bytes s1) b n"
        if "i < MAX_SYMBOLS" "i \<noteq> j" "entry_ptr i \<le> b" "b + n \<le> entry_ptr i + 40" for i b n
      proof -
        from that consider "i < j" | "j < i" by linarith
        then show ?thesis
          using that j e by cases (simp_all add: frames layout_defs)
      qed
    qed (use cur j e in \<open>simp_all add: frames layout_defs\<close>)
    with reused show ?thesis by simp
  next
    case (allocated j s1)
    have j: "j < MAX_SYMBOLS" using allocated(1) by (simp add: resolved_def)
    let ?n = "w_next_data_offset w"
    let ?req = "56 + 48 * length candles"
    let ?s' = "end_write t_end (fill_block (entry_ptr j) ?n symbol interval candles t_upd
        (store32 (entry_ptr j + 24) (of_nat ?req)
           (store64 (entry_ptr j + 16) (of_nat ?n) (memset0 ?n ?req s1))))"
    have blk: "load64 (bytes ?s') (entry_ptr j + 16) = of_nat ?n"
      "load32 (bytes ?s') (entry_ptr j + 24) = of_nat ?req"
      using j nx by (simp_all add: frames layout_defs)
    have "region_ok (w\<lparr>w_next_data_offset := ?n + ?req, mem := ?s'\<rparr>)"
    proof (rule region_ok_final [OF ok allocated(1)])
      show "\<not> IsWriting (bytes ?s')"
        using ev by (simp add: allocated)
      show "unat (load64 (bytes ?s') (entry_ptr j + 16)) \<noteq> 0 \<longrightarrow>
        DATA_SECTIONS_OFFSET \<le> unat (load64 (bytes ?s') (entry_ptr j + 16)) \<and>
        unat (load64 (bytes ?s') (entry_ptr j + 16)) + unat (load32 (bytes ?s') (entry_ptr j + 24))
          \<le> ?n + ?req"
        unfolding blk unat_of_nat_offset [OF nx2] unat_of_nat_size [OF le] using nx
        by (simp add: layout_defs)
      show "load_bytes (bytes ?s') b n = load_bytes (bytes s1) b n"
        if "i < MAX_SYMBOLS" "i \<noteq> j" "entry_ptr i \<le> b" "b + n \<le> entry_ptr i + 40" for i b n
      proof -
        from that consider "i < j" | "j < i" by linarith
        then show ?thesis
          using that j nx by cases (simp_all add: frames layout_defs)
      qed
      show "?n + ?req = DATA_SECTIONS_OFFSET \<or> ?n + ?req \<le> w_size w"
        using allocated(3) by simp
    qed (use j nx in \<open>simp_all add: frames layout_defs\<close>)
    with allocated show ?thesis by simp
  qed
qed

lemma initialize_region_ok:
  assumes "w_base_ptr v" "w_size v \<le> 1073741824"
  shows "region_ok (initialize_region pid now v)"
    and "IsInitialized (initialize_region pid now v)"
proof -
  let ?w = "initialize_region pid now v"
  let ?m = "bytes (mem ?w)"
  have c: "load32 ?m idx_count = 0"
    by (simp add: initialize_region_def Let_def frames layout_defs)
  have sc: "load32 ?m hdr_symbol_count = 0"
    by (simp add: initialize_region_def Let_def frames layout_defs)
  have q: "load64 ?m hdr_sequence = 0"
    by (simp add: initialize_region_def Let_def frames layout_defs)
  have z: "load_bytes ?m b n = replicate n 0" if "264 \<le> b" "b + n \<le> 10504" for b n
    using that by (simp add: initialize_region_def Let_def load_memset0_inside layout_defs)
  have e: "entry_ok ?w i" if "i < MAX_SYMBOLS" for i
    using that by (simp add: entry_ok_def Let_def z layout_defs)
  have n: "w_next_data_offset ?w = DATA_SECTIONS_OFFSET" "w_size ?w = w_size v"
    by (simp_all add: initialize_region_def Let_def)
  show "region_ok ?w"
    using assms e IsWriting_zero [OF q] by (simp add: region_ok_def Let_def c sc n)
  show "IsInitialized ?w"
    using assms by (simp add: initialize_region_def Let_def IsInitialized_def)
qed

lemma Create_cases:
  obtains
    (rejected) "fst (Create os pid now name sz w) \<in> {INVALID_NAME, INVALID_SIZE}"
      "snd (Create os pid now name sz w) = w"
  | (os_failed) "fst (Create os pid now name sz w) \<in> {CREATE_FAILED, MAPPING_FAILED}"
      "\<not> IsInitialized (snd (Create os pid now name sz w))"
  | (created) "fst (Create os pid now name sz w) = OK"
      "region_ok (snd (Create os pid now name sz w))"
      "IsInitialized (snd (Create os pid now name sz w))"
proof (cases "name = [] \<or> sz < 4352 \<or> sz > 1073741824")
  case True
  then show ?thesis by (intro rejected) (auto simp: Create_def)
next
  case False
  define w2 where "w2 = (if IsInitialized w then Close w else w)\<lparr>w_name := name, w_size := sz\<rparr>"
  have r: "\<not> w_region w2"
    by (simp add: w2_def Close_def IsInitialized_def)
  have C: "Create os' pid now name sz w =
      (case platform_create os' w2 of
         (err, w3) \<Rightarrow> if err \<noteq> OK then (err, w3) else (OK, initialize_region pid now w3))"
    for os'
    using False by (simp add: Create_def Let_def w2_def)
  show ?thesis
  proof (cases os)
    case ShmOpenFails
    with r show ?thesis
      by (intro os_failed) (simp_all add: C platform_create_def IsInitialized_def)
  next
    case MmapFails
    with r show ?thesis
      by (intro os_failed) (simp_all add: C platform_create_def IsInitialized_def)
  next
    case (Mapped fd m0)
    let ?w3 = "w2\<lparr>w_handle := fd, w_base_ptr := True, mem := \<lparr>bytes = m0, writes = []\<rparr>\<rparr>"
    have sz: "w_size ?w3 \<le> 1073741824" "w_base_ptr ?w3"
      using False by (simp_all add: w2_def)
    have "Create os pid now name sz w = (OK, initialize_region pid now ?w3)"
      by (simp add: C Mapped platform_create_def)
    with initialize_region_ok [OF sz(2) sz(1), of pid now] show ?thesis
      by (intro created) simp_all
  qed
qed

lemma WriteCandles_members:
  "w_region (snd (WriteCandles symbol interval candles t_upd t_end w)) = w_region w"
  "w_size (snd (WriteCandles symbol interval candles t_upd t_end w)) = w_size w"
  by (auto simp: WriteCandles_def place_block_def allocate_data_block_def Let_def
      split: prod.splits option.splits if_splits)

lemma reachable_region_ok: "reachable w \<Longrightarrow> IsInitialized w \<Longrightarrow> region_ok w"
proof (induction rule: reachable.induct)
  case (r_new s)
  then show ?case by (simp add: IsInitialized_def new_writer_def)
next
  case (r_Create w os pid now name sz)
  show ?case
    using r_Create.prems r_Create.IH
    by (cases rule: Create_cases [of os pid now name sz w]) auto
next
  case (r_WriteCandles w symbol interval candles t_upd t_end)
  then have "IsInitialized w"
    by (simp add: IsInitialized_def WriteCandles_members)
  with r_WriteCandles.IH show ?case
    by (intro WriteCandles_region_ok) simp_all
next
  case (r_Close w)
  then show ?case by (simp add: IsInitialized_def Close_def)
qed

lemma reachable_ex_create: "reachable (snd (ex_create sz))"
  unfolding ex_create_def ex_new_def by (intro reachable.intros)

lemma ex_create_facts:
  assumes "4352 \<le> sz" "sz \<le> 1073741824"
  shows "IsInitialized (snd (ex_create sz))"
    and "load64 (bytes (mem (snd (ex_create sz)))) hdr_sequence = 0"
    and "load32 (bytes (mem (snd (ex_create sz)))) idx_count = 0"
    and "w_next_data_offset (snd (ex_create sz)) = 16640"
    and "w_size (snd (ex_create sz)) = sz"
  using assms
  by (simp_all add: ex_create_eval initialize_region_def Let_def IsInitialized_def frames
      layout_defs ex_new_def new_writer_def)

section \<open>What a write does to the index and the cursor\<close>

lemma Create_sequence:
  assumes "fst (Create os pid now name sz w) = OK"
  shows "load64 (bytes (mem (snd (Create os pid now name sz w)))) hdr_sequence = 0"
    and "load32 (bytes (mem (snd (Create os pid now name sz w)))) idx_count = 0"
    and "w_next_data_offset (snd (Create os pid now name sz w)) = DATA_SECTIONS_OFFSET"
    and "w_size (snd (Create os pid now name sz w)) = sz"
  using assms
  by (auto simp: Create_def platform_create_def Let_def initialize_region_def frames layout_defs
      split: os_result.splits if_splits)

lemma WriteCandles_too_long:
  "fst (WriteCandles symbol interval candles t_upd t_end w) = OK \<Longrightarrow>
   length candles \<le> MAX_CANDLES_PER_SYMBOL"
  by (auto simp: WriteCandles_def split: if_splits)

lemma WriteCandles_calls_sequence:
  assumes "region_ok w" "IsInitialized w" "WriteCandles_calls calls w = (rs, w')"
    and "\<forall>r\<in>set rs. r = OK"
  shows "load64 (bytes (mem w')) hdr_sequence
           = load64 (bytes (mem w)) hdr_sequence + 2 * of_nat (length (filter nonempty_call calls))
         \<and> region_ok w'"
  using assms
proof (induction calls arbitrary: w rs)
  case Nil
  then show ?case by simp
next
  case (Cons c calls)
  obtain symbol interval candles t_upd t_end where c: "c = (symbol, interval, candles, t_upd, t_end)"
    by (cases c) auto
  obtain r w1 where r: "WriteCandles symbol interval candles t_upd t_end w = (r, w1)"
    by (cases "WriteCandles symbol interval candles t_upd t_end w") auto
  obtain rs1 where rs: "WriteCandles_calls calls w1 = (rs1, w')" "rs = r # rs1"
    using Cons.prems(3) by (auto simp: c r split: prod.splits)
  have rok: "r = OK" and rsok: "\<forall>r\<in>set rs1. r = OK"
    using Cons.prems(4) rs(2) by simp_all
  have w1: "region_ok w1" "IsInitialized w1"
    using WriteCandles_region_ok [OF Cons.prems(1,2), of symbol interval candles t_upd t_end]
      WriteCandles_members(1) [of symbol interval candles t_upd t_end w] Cons.prems(2)
    by (simp_all add: r IsInitialized_def)
  have step: "load64 (bytes (mem w1)) hdr_sequence
      = load64 (bytes (mem w)) hdr_sequence + (if candles = [] then 0 else 2)"
  proof (cases "candles = []")
    case True
    with r Cons.prems(2) show ?thesis by (simp add: WriteCandles_def)
  next
    case False
    have "length candles \<le> MAX_CANDLES_PER_SYMBOL"
      using r rok WriteCandles_too_long [of symbol interval candles t_upd t_end w] by simp
    from WriteCandles_sequence [OF Cons.prems(1,2) False this, of symbol interval t_upd t_end]
    show ?thesis using False by (simp add: r)
  qed
  from Cons.IH [OF w1 rs(1) rsok] step show ?case
    by (simp add: c nonempty_call_def)
qed

lemma WriteCandles_resolved:
  fixes w symbol interval candles t_upd t_end
  defines "m \<equiv> bytes (mem w)"
  defines "req \<equiv> 56 + 48 * length candles"
  defines "nxt \<equiv> w_next_data_offset w"
  defines "r \<equiv> WriteCandles symbol interval candles t_upd t_end w"
  assumes ok: "region_ok w" and init: "IsInitialized w"
    and ne: "candles \<noteq> []" and le: "length candles \<le> MAX_CANDLES_PER_SYMBOL"
    and nl: "Find m symbol \<noteq> None \<or> unat (load32 m idx_count) < MAX_SYMBOLS"
  obtains j s1 where "resolved w symbol j s1"
    and "\<And>b n. b + n \<le> 16640 \<Longrightarrow> b + n \<le> 16 \<or> 32 \<le> b \<Longrightarrow>
           b + n \<le> entry_ptr j + 16 \<or> entry_ptr j + 40 \<le> b \<Longrightarrow>
           load_bytes (bytes (mem (snd r))) b n = load_bytes (bytes s1) b n"
    and "fst r = (if (load64 m (entry_ptr j + 16) \<noteq> 0 \<and> req \<le> unat (load32 m (entry_ptr j + 24)))
                     \<or> nxt + req \<le> w_size w then OK else WRITE_FAILED)"
    and "w_next_data_offset (snd r) =
           (if load64 m (entry_ptr j + 16) \<noteq> 0 \<and> req \<le> unat (load32 m (entry_ptr j + 24))
            then nxt else if nxt + req \<le> w_size w then nxt + req else nxt)"
    and "fst r = OK \<Longrightarrow>
           load64 (bytes (mem (snd r))) (entry_ptr j + 16) =
             (if load64 m (entry_ptr j + 16) \<noteq> 0 \<and> req \<le> unat (load32 m (entry_ptr j + 24))
              then load64 m (entry_ptr j + 16) else of_nat nxt) \<and>
           load32 (bytes (mem (snd r))) (entry_ptr j + 24) =
             (if load64 m (entry_ptr j + 16) \<noteq> 0 \<and> req \<le> unat (load32 m (entry_ptr j + 24))
              then load32 m (entry_ptr j + 24) else of_nat req) \<and>
           load32 (bytes (mem (snd r))) (entry_ptr j + 28) = of_nat (length candles)"
  using ok init ne le
proof (cases rule: WriteCandles_cases [where symbol = symbol and interval = interval
      and t_upd = t_upd and t_end = t_end])
  case limit
  with nl show ?thesis by (simp add: m_def)
next
  case (failed j s1)
  have j: "j < MAX_SYMBOLS" using failed(1) by (simp add: resolved_def)
  show ?thesis
  proof (rule that [of j s1])
    show "resolved w symbol j s1" by fact
    show "load_bytes (bytes (mem (snd r))) b n = load_bytes (bytes s1) b n"
      if "b + n \<le> 16640" "b + n \<le> 16 \<or> 32 \<le> b" for b n
      using that by (simp add: r_def failed frames)
  qed (use failed in \<open>auto simp: r_def m_def req_def nxt_def\<close>)
next
  case (reused j s1)
  have j: "j < MAX_SYMBOLS" using reused(1) by (simp add: resolved_def)
  note e = region_ok_entry [OF ok j reused(2)]
  let ?d = "unat (load64 (bytes (mem w)) (entry_ptr j + 16))"
  let ?s' = "end_write t_end (fill_block (entry_ptr j) ?d symbol interval candles t_upd s1)"
  have r: "r = (OK, w\<lparr>mem := ?s'\<rparr>)"
    using reused by (simp add: r_def)
  have fr: "load_bytes (bytes ?s') b n = load_bytes (bytes s1) b n"
    if "b + n \<le> 16640" "b + n \<le> 16 \<or> 32 \<le> b"
      "b + n \<le> entry_ptr j + 16 \<or> entry_ptr j + 40 \<le> b" for b n
    using that e j by (elim disjE; simp add: frames layout_defs)
  have cc: "load32 (bytes ?s') (entry_ptr j + 28) = of_nat (length candles)"
    using e j by (simp add: end_write_def fill_block_def Let_def frames layout_defs)
  show ?thesis
  proof (rule that [of j s1])
    show "resolved w symbol j s1" by fact
    show "load_bytes (bytes (mem (snd r))) b n = load_bytes (bytes s1) b n"
      if "b + n \<le> 16640" "b + n \<le> 16 \<or> 32 \<le> b"
        "b + n \<le> entry_ptr j + 16 \<or> entry_ptr j + 40 \<le> b" for b n
      using fr [OF that] by (simp add: r)
    show "fst r = OK \<Longrightarrow>
           load64 (bytes (mem (snd r))) (entry_ptr j + 16) =
             (if load64 m (entry_ptr j + 16) \<noteq> 0 \<and> req \<le> unat (load32 m (entry_ptr j + 24))
              then load64 m (entry_ptr j + 16) else of_nat nxt) \<and>
           load32 (bytes (mem (snd r))) (entry_ptr j + 24) =
             (if load64 m (entry_ptr j + 16) \<noteq> 0 \<and> req \<le> unat (load32 m (entry_ptr j + 24))
              then load32 m (entry_ptr j + 24) else of_nat req) \<and>
           load32 (bytes (mem (snd r))) (entry_ptr j + 28) = of_nat (length candles)"
      using reused(2,3) e j cc resolved_entry_fields [OF reused(1) j]
      by (simp add: r m_def req_def frames layout_defs)
  qed (use reused in \<open>auto simp: r m_def req_def nxt_def\<close>)
next
  case (allocated j s1)
  have j: "j < MAX_SYMBOLS" using allocated(1) by (simp add: resolved_def)
  note nx = region_ok_cursor [OF ok]
  let ?n = "w_next_data_offset w"
  let ?req = "56 + 48 * length candles"
  let ?s' = "end_write t_end (fill_block (entry_ptr j) ?n symbol interval candles t_upd
      (store32 (entry_ptr j + 24) (of_nat ?req)
         (store64 (entry_ptr j + 16) (of_nat ?n) (memset0 ?n ?req s1))))"
  have r: "r = (OK, w\<lparr>w_next_data_offset := ?n + ?req, mem := ?s'\<rparr>)"
    using allocated by (simp add: r_def)
  have fr: "load_bytes (bytes ?s') b n = load_bytes (bytes s1) b n"
    if "b + n \<le> 16640" "b + n \<le> 16 \<or> 32 \<le> b"
      "b + n \<le> entry_ptr j + 16 \<or> entry_ptr j + 40 \<le> b" for b n
    using that nx j by (elim disjE; simp add: frames layout_defs)
  have cc: "load32 (bytes ?s') (entry_ptr j + 28) = of_nat (length candles)"
    "load64 (bytes ?s') (entry_ptr j + 16) = of_nat ?n"
    "load32 (bytes ?s') (entry_ptr j + 24) = of_nat ?req"
    using nx j by (simp_all add: end_write_def fill_block_def Let_def frames layout_defs)
  show ?thesis
  proof (rule that [of j s1])
    show "resolved w symbol j s1" by fact
    show "load_bytes (bytes (mem (snd r))) b n = load_bytes (bytes s1) b n"
      if "b + n \<le> 16640" "b + n \<le> 16 \<or> 32 \<le> b"
        "b + n \<le> entry_ptr j + 16 \<or> entry_ptr j + 40 \<le> b" for b n
      using fr [OF that] by (simp add: r)
    show "fst r = OK \<Longrightarrow>
           load64 (bytes (mem (snd r))) (entry_ptr j + 16) =
             (if load64 m (entry_ptr j + 16) \<noteq> 0 \<and> req \<le> unat (load32 m (entry_ptr j + 24))
              then load64 m (entry_ptr j + 16) else of_nat nxt) \<and>
           load32 (bytes (mem (snd r))) (entry_ptr j + 24) =
             (if load64 m (entry_ptr j + 16) \<noteq> 0 \<and> req \<le> unat (load32 m (entry_ptr j + 24))
              then load32 m (entry_ptr j + 24) else of_nat req) \<and>
           load32 (bytes (mem (snd r))) (entry_ptr j + 28) = of_nat (length candles)"
      using allocated(2) cc unfolding r m_def req_def nxt_def
      by (auto simp del: of_nat_add of_nat_mult)
  qed (use allocated in \<open>auto simp: r m_def req_def nxt_def\<close>)
qed

lemma load_bytes_append:
  "load_bytes m a (n + k) = load_bytes m a n @ load_bytes m (a + n) k"
proof -
  have "[a..<a + (n + k)] = [a..<a + n] @ [a + n..<a + n + k]"
    using upt_add_eq_append [of a "a + n" k] by (simp add: add.assoc)
  then show ?thesis
    by (simp add: load_bytes_def)
qed

lemma takeWhile_snoc_stop: "\<not> P z \<Longrightarrow> takeWhile P (xs @ [z]) = takeWhile P xs"
  by (induction xs) auto

lemma takeWhile_pad_stop:
  assumes "\<And>x. x \<in> set xs \<Longrightarrow> P x" "\<not> P z"
  shows "takeWhile P (xs @ replicate k z @ [z]) = xs"
proof -
  have "takeWhile P (replicate k z @ [z]) = []"
    using assms(2) by (cases k) auto
  with assms(1) show ?thesis
    by simp
qed

lemma GetSymbol_SetSymbol:
  "GetSymbol (bytes (SetSymbol p symb s)) p = take 15 (c_str symb)"
proof -
  let ?s' = "SetSymbol p symb s"
  have a: "load_bytes (bytes ?s') p 15 = strncpy symb 15"
    unfolding SetSymbol_def SYMBOL_NAME_SIZE_def
    by (subst load_store_bytes_disj) (simp_all add: load_store_bytes_same)
  have b: "load_bytes (bytes ?s') (p + 15) 1 = [0]"
    using load_SetSymbol_nul [of p symb s] by simp
  have "load_bytes (bytes ?s') p (15 + 1) = strncpy symb 15 @ [0]"
    by (simp only: load_bytes_append a b)
  then have l: "load_bytes (bytes ?s') p 16 = strncpy symb 15 @ [0]" by simp
  have nz: "x \<noteq> 0" if "x \<in> set (take 15 (c_str symb))" for x
    using that unfolding c_str_def by (auto dest!: in_set_takeD set_takeWhileD)
  show ?thesis
    unfolding GetSymbol_def strn_string_def SYMBOL_NAME_SIZE_def l strncpy_def
    using takeWhile_pad_stop [of "take 15 (c_str symb)" "\<lambda>c. c \<noteq> 0" 0] nz
    by simp
qed

lemma resolved_GetSymbol:
  assumes res: "resolved w symbol j s1" and i: "i < MAX_SYMBOLS"
  shows "GetSymbol (bytes s1) (entry_ptr i) =
         (if Find (bytes (mem w)) symbol = None \<and> i = j then take 15 (c_str symbol)
          else GetSymbol (bytes (mem w)) (entry_ptr i))"
proof -
  let ?c = "load32 (bytes (mem w)) idx_count"
  from res consider
    (found) "Find (bytes (mem w)) symbol \<noteq> None" "s1 = begin_write (mem w)"
    | (added) "Find (bytes (mem w)) symbol = None" "j < MAX_SYMBOLS"
      "s1 = store32 hdr_symbol_count (?c + 1)
              (SetSymbol (entry_ptr j) symbol (store32 idx_count (?c + 1) (begin_write (mem w))))"
    by (auto simp: resolved_def Let_def)
  then show ?thesis
  proof cases
    case found
    have "GetSymbol (bytes s1) (entry_ptr i) = GetSymbol (bytes (mem w)) (entry_ptr i)"
      using i by (intro GetSymbol_eqI) (simp add: found frames layout_defs)
    with found(1) show ?thesis by auto
  next
    case added
    consider "i < j" | "i = j" | "j < i" by linarith
    then show ?thesis
    proof cases
      case 2
      have "GetSymbol (bytes s1) (entry_ptr j)
            = GetSymbol (bytes (SetSymbol (entry_ptr j) symbol
                (store32 idx_count (?c + 1) (begin_write (mem w))))) (entry_ptr j)"
        unfolding added(3) using added(2)
        by (intro GetSymbol_eqI load_store32_disj) (simp add: layout_defs)
      with 2 added(1) show ?thesis by (simp only: GetSymbol_SetSymbol) simp
    next
      case 1
      have "GetSymbol (bytes s1) (entry_ptr i) = GetSymbol (bytes (mem w)) (entry_ptr i)"
        using i added(2) 1 by (intro GetSymbol_eqI) (simp add: added(3) frames layout_defs)
      with 1 show ?thesis by simp
    next
      case 3
      have "GetSymbol (bytes s1) (entry_ptr i) = GetSymbol (bytes (mem w)) (entry_ptr i)"
        using i added(2) 3 by (intro GetSymbol_eqI) (simp add: added(3) frames layout_defs)
      with 3 show ?thesis by simp
    qed
  qed
qed

lemma resolved_count:
  assumes res: "resolved w symbol j s1"
  shows "load32 (bytes s1) idx_count =
         (if Find (bytes (mem w)) symbol = None then load32 (bytes (mem w)) idx_count + 1
          else load32 (bytes (mem w)) idx_count)"
    and "load32 (bytes s1) hdr_symbol_count =
         (if Find (bytes (mem w)) symbol = None then load32 (bytes (mem w)) idx_count + 1
          else load32 (bytes (mem w)) hdr_symbol_count)"
proof -
  let ?c = "load32 (bytes (mem w)) idx_count"
  from res consider
    (found) "Find (bytes (mem w)) symbol \<noteq> None" "s1 = begin_write (mem w)"
    | (added) "Find (bytes (mem w)) symbol = None" "j < MAX_SYMBOLS"
      "s1 = store32 hdr_symbol_count (?c + 1)
              (SetSymbol (entry_ptr j) symbol (store32 idx_count (?c + 1) (begin_write (mem w))))"
    by (auto simp: resolved_def Let_def)
  then have "load32 (bytes s1) idx_count = (if Find (bytes (mem w)) symbol = None then ?c + 1 else ?c)
     \<and> load32 (bytes s1) hdr_symbol_count =
         (if Find (bytes (mem w)) symbol = None then ?c + 1
          else load32 (bytes (mem w)) hdr_symbol_count)"
  proof cases
    case found
    have "load32 (bytes s1) idx_count = ?c"
      "load32 (bytes s1) hdr_symbol_count = load32 (bytes (mem w)) hdr_symbol_count"
      by (simp_all add: found(2) frames layout_defs)
    with found(1) show ?thesis by auto
  next
    case added
    have "load32 (bytes s1) idx_count = ?c + 1" "load32 (bytes s1) hdr_symbol_count = ?c + 1"
      using added(2) by (simp_all add: added(3) frames layout_defs)
    with added(1) show ?thesis by auto
  qed
  then show "load32 (bytes s1) idx_count =
         (if Find (bytes (mem w)) symbol = None then load32 (bytes (mem w)) idx_count + 1
          else load32 (bytes (mem w)) idx_count)"
    and "load32 (bytes s1) hdr_symbol_count =
         (if Find (bytes (mem w)) symbol = None then load32 (bytes (mem w)) idx_count + 1
          else load32 (bytes (mem w)) hdr_symbol_count)"
    by blast+
qed

lemma entry_ptr_inj: "entry_ptr i = entry_ptr j \<longleftrightarrow> i = j"
  by (simp add: layout_defs)

lemma resolved_index_of:
  assumes "resolved w symbol j s1"
  shows "Find (bytes (mem w)) symbol = None \<Longrightarrow> j = unat (load32 (bytes (mem w)) idx_count)"
    and "Find (bytes (mem w)) symbol = Some (entry_ptr i) \<Longrightarrow> j = i"
  using assms by (auto simp: resolved_def Let_def entry_ptr_inj)

lemma WriteCandles_new_symbol:
  fixes w symbol interval candles t_upd t_end
  defines "m \<equiv> bytes (mem w)"
  defines "req \<equiv> 56 + 48 * length candles"
  defines "nxt \<equiv> w_next_data_offset w"
  defines "r \<equiv> WriteCandles symbol interval candles t_upd t_end w"
  defines "c \<equiv> load32 (bytes (mem w)) idx_count"
  assumes ok: "region_ok w" and init: "IsInitialized w"
    and ne: "candles \<noteq> []" and le: "length candles \<le> MAX_CANDLES_PER_SYMBOL"
    and fresh: "Find m symbol = None" and room: "unat c < MAX_SYMBOLS"
  shows "load32 (bytes (mem (snd r))) idx_count = c + 1"
    and "load32 (bytes (mem (snd r))) hdr_symbol_count = c + 1"
    and "GetSymbol (bytes (mem (snd r))) (entry_ptr (unat c)) = take 15 (c_str symbol)"
    and "\<And>i. i < MAX_SYMBOLS \<Longrightarrow> i \<noteq> unat c \<Longrightarrow>
           GetSymbol (bytes (mem (snd r))) (entry_ptr i) = GetSymbol m (entry_ptr i)"
    and "fst r = (if nxt + req \<le> w_size w then OK else WRITE_FAILED)"
    and "w_next_data_offset (snd r) = (if nxt + req \<le> w_size w then nxt + req else nxt)"
    and "fst r = OK \<Longrightarrow>
           load64 (bytes (mem (snd r))) (entry_ptr (unat c) + 16) = of_nat nxt \<and>
           load32 (bytes (mem (snd r))) (entry_ptr (unat c) + 24) = of_nat req \<and>
           load32 (bytes (mem (snd r))) (entry_ptr (unat c) + 28) = of_nat (length candles)"
proof -
  have nl: "Find (bytes (mem w)) symbol \<noteq> None \<or> unat (load32 (bytes (mem w)) idx_count) < MAX_SYMBOLS"
    using room by (simp add: c_def)
  from WriteCandles_resolved [OF ok init ne le nl, of interval t_upd t_end]
  obtain j s1 where res: "resolved w symbol j s1"
    and fr: "\<And>b n. b + n \<le> 16640 \<Longrightarrow> b + n \<le> 16 \<or> 32 \<le> b \<Longrightarrow>
           b + n \<le> entry_ptr j + 16 \<or> entry_ptr j + 40 \<le> b \<Longrightarrow>
           load_bytes (bytes (mem (snd r))) b n = load_bytes (bytes s1) b n"
    and rs: "fst r = (if (load64 m (entry_ptr j + 16) \<noteq> 0 \<and> req \<le> unat (load32 m (entry_ptr j + 24)))
                     \<or> nxt + req \<le> w_size w then OK else WRITE_FAILED)"
    and nx: "w_next_data_offset (snd r) =
           (if load64 m (entry_ptr j + 16) \<noteq> 0 \<and> req \<le> unat (load32 m (entry_ptr j + 24))
            then nxt else if nxt + req \<le> w_size w then nxt + req else nxt)"
    and fl: "fst r = OK \<Longrightarrow>
           load64 (bytes (mem (snd r))) (entry_ptr j + 16) =
             (if load64 m (entry_ptr j + 16) \<noteq> 0 \<and> req \<le> unat (load32 m (entry_ptr j + 24))
              then load64 m (entry_ptr j + 16) else of_nat nxt) \<and>
           load32 (bytes (mem (snd r))) (entry_ptr j + 24) =
             (if load64 m (entry_ptr j + 16) \<noteq> 0 \<and> req \<le> unat (load32 m (entry_ptr j + 24))
              then load32 m (entry_ptr j + 24) else of_nat req) \<and>
           load32 (bytes (mem (snd r))) (entry_ptr j + 28) = of_nat (length candles)"
    unfolding m_def req_def nxt_def r_def by blast
  have j: "j = unat c" "j < MAX_SYMBOLS"
    using resolved_index_of(1) [OF res] fresh room by (simp_all add: m_def c_def)
  have "entry_ok w j"
    using ok j(2) by (simp add: region_ok_def Let_def)
  then have off: "load64 m (entry_ptr j + 16) = 0"
    using j(1) by (simp add: entry_ok_def Let_def c_def m_def ent_data_offset_def unat_eq_0)
  note rc = resolved_count [OF res]
  show "load32 (bytes (mem (snd r))) idx_count = c + 1"
    using fr [of idx_count 4] j(2) rc(1) fresh by (simp add: layout_defs m_def c_def)
  show "load32 (bytes (mem (snd r))) hdr_symbol_count = c + 1"
    using fr [of hdr_symbol_count 4] j(2) rc(2) fresh by (simp add: layout_defs m_def c_def)
  have gs: "GetSymbol (bytes (mem (snd r))) (entry_ptr i) = GetSymbol (bytes s1) (entry_ptr i)"
    if "i < MAX_SYMBOLS" for i
  proof -
    consider "i \<le> j" | "j < i" by linarith
    then show ?thesis
      using that j(2) by cases (intro GetSymbol_eqI fr; simp add: layout_defs)+
  qed
  show "GetSymbol (bytes (mem (snd r))) (entry_ptr (unat c)) = take 15 (c_str symbol)"
    using gs [OF j(2)] resolved_GetSymbol [OF res j(2)] fresh j(1) by (simp add: m_def)
  show "GetSymbol (bytes (mem (snd r))) (entry_ptr i) = GetSymbol m (entry_ptr i)"
    if "i < MAX_SYMBOLS" "i \<noteq> unat c" for i
    using gs [OF that(1)] resolved_GetSymbol [OF res that(1)] that(2) j(1) by (simp add: m_def)
  show "fst r = (if nxt + req \<le> w_size w then OK else WRITE_FAILED)"
    using rs off by simp
  show "w_next_data_offset (snd r) = (if nxt + req \<le> w_size w then nxt + req else nxt)"
    using nx off by simp
  show "load64 (bytes (mem (snd r))) (entry_ptr (unat c) + 16) = of_nat nxt \<and>
        load32 (bytes (mem (snd r))) (entry_ptr (unat c) + 24) = of_nat req \<and>
        load32 (bytes (mem (snd r))) (entry_ptr (unat c) + 28) = of_nat (length candles)"
    if "fst r = OK"
    using fl [OF that] off j(1) by (simp del: of_nat_add of_nat_mult)
qed

lemma region_ok_name:
  assumes ok: "region_ok w" and i: "i < MAX_SYMBOLS"
    and g: "GetSymbol (bytes (mem w)) (entry_ptr i) = symbol"
  shows "take 15 (c_str symbol) = symbol"
proof -
  let ?m = "bytes (mem w)"
  have "load_bytes ?m (entry_ptr i + 15) 1 = [0]"
    using ok i by (simp add: region_ok_def entry_ok_def Let_def ent_symbol_def)
  then have "load_bytes ?m (entry_ptr i) (15 + 1) = load_bytes ?m (entry_ptr i) 15 @ [0]"
    by (simp only: load_bytes_append)
  then have s: "symbol = takeWhile (\<lambda>c. c \<noteq> 0) (load_bytes ?m (entry_ptr i) 15)"
    using g by (simp add: GetSymbol_def strn_string_def SYMBOL_NAME_SIZE_def takeWhile_snoc_stop)
  have "length symbol \<le> 15"
    unfolding s by (rule order_trans [OF length_takeWhile_le]) simp
  moreover have "c_str symbol = symbol"
    unfolding s c_str_def by simp
  ultimately show ?thesis by simp
qed

lemma bytes_eq_load: "m' x = m x \<longleftrightarrow> load_bytes m' x (Suc 0) = load_bytes m x (Suc 0)"
  by (simp add: load_bytes_def)

lemma WriteCandles_limit:
  assumes ok: "region_ok w" and init: "IsInitialized w"
    and ne: "candles \<noteq> []" and le: "length candles \<le> MAX_CANDLES_PER_SYMBOL"
    and full: "unat (load32 (bytes (mem w)) idx_count) = MAX_SYMBOLS"
    and none: "Find (bytes (mem w)) symbol = None"
  shows "fst (WriteCandles symbol interval candles t_upd t_end w) = SYMBOL_LIMIT_EXCEEDED"
    and "snd (WriteCandles symbol interval candles t_upd t_end w)
           = w\<lparr>mem := end_write t_end (begin_write (mem w))\<rparr>"
  using ok init ne le
  by (cases rule: WriteCandles_cases [where symbol = symbol and interval = interval
        and t_upd = t_upd and t_end = t_end]; use none full in \<open>auto simp: resolved_def Let_def\<close>)+

lemma region_ok_Find_None:
  assumes ok: "region_ok w"
    and "\<forall>i<MAX_SYMBOLS. GetSymbol (bytes (mem w)) (entry_ptr i) \<noteq> take 15 (c_str symbol)"
  shows "Find (bytes (mem w)) symbol = None"
  unfolding Find_None
proof (intro allI impI notI)
  fix j assume j: "j < unat (load32 (bytes (mem w)) idx_count) \<and> j < MAX_SYMBOLS"
    and g: "GetSymbol (bytes (mem w)) (entry_ptr j) = symbol"
  from region_ok_name [OF ok _ g] j have "take 15 (c_str symbol) = symbol" by simp
  with assms(2) j g show False by auto
qed




















lemma WriteCandles_block_count:
  fixes w symbol interval candles t_upd t_end
  defines "m \<equiv> bytes (mem w)"
  defines "r \<equiv> WriteCandles symbol interval candles t_upd t_end w"
  assumes ok: "region_ok w" and init: "IsInitialized w"
    and ne: "candles \<noteq> []" and le: "length candles \<le> MAX_CANDLES_PER_SYMBOL"
    and j: "Find m symbol = Some (entry_ptr j) \<or>
            (Find m symbol = None \<and> j = unat (load32 m idx_count))"
    and res: "fst r = OK"
  shows "load32 (bytes (mem (snd r)))
           (blk_count (unat (load64 (bytes (mem (snd r))) (ent_data_offset (entry_ptr j)))))
         = of_nat (length candles)"
  using ok init ne le
proof (cases rule: WriteCandles_cases [where symbol = symbol and interval = interval
      and t_upd = t_upd and t_end = t_end])
  case limit
  with res show ?thesis by (simp add: r_def)
next
  case (failed j' s1)
  with res show ?thesis by (simp add: r_def)
next
  case (reused j' s1)
  have jj: "j' = j"
    using resolved_index_of [OF reused(1)] j by (auto simp: m_def)
  have j2: "j < MAX_SYMBOLS" using reused(1) jj by (simp add: resolved_def)
  note e = region_ok_entry [OF ok j2 reused(2) [unfolded jj]]
  let ?d = "unat (load64 (bytes (mem w)) (entry_ptr j + 16))"
  let ?s' = "end_write t_end (fill_block (entry_ptr j) ?d symbol interval candles t_upd s1)"
  have r: "snd r = w\<lparr>mem := ?s'\<rparr>"
    using reused(4) by (simp add: r_def jj)
  have off: "load64 (bytes ?s') (entry_ptr j + 16) = load64 (bytes (mem w)) (entry_ptr j + 16)"
    using j2 e by (simp add: frames resolved_entry_fields [OF reused(1) [unfolded jj] j2] layout_defs)
  have "load32 (bytes ?s') (?d + 24) = of_nat (length candles)"
    using j2 e by (simp add: end_write_def fill_block_def Let_def frames layout_defs)
  then show ?thesis
    by (simp add: r off ent_data_offset_def blk_count_def)
next
  case (allocated j' s1)
  have jj: "j' = j"
    using resolved_index_of [OF allocated(1)] j by (auto simp: m_def)
  have j2: "j < MAX_SYMBOLS" using allocated(1) jj by (simp add: resolved_def)
  note nx = region_ok_cursor [OF ok]
  have nx2: "w_next_data_offset w \<le> 1073741824"
    using ok by (auto simp: region_ok_def Let_def layout_defs)
  let ?n = "w_next_data_offset w"
  let ?req = "56 + 48 * length candles"
  let ?s' = "end_write t_end (fill_block (entry_ptr j) ?n symbol interval candles t_upd
      (store32 (entry_ptr j + 24) (of_nat ?req)
         (store64 (entry_ptr j + 16) (of_nat ?n) (memset0 ?n ?req s1))))"
  have r: "snd r = w\<lparr>w_next_data_offset := ?n + ?req, mem := ?s'\<rparr>"
    using allocated(4) by (simp add: r_def jj)
  have off: "load64 (bytes ?s') (entry_ptr j + 16) = of_nat ?n"
    using j2 nx by (simp add: frames layout_defs)
  have "load32 (bytes ?s') (?n + 24) = of_nat (length candles)"
    using j2 nx by (simp add: end_write_def fill_block_def Let_def frames layout_defs)
  moreover have "unat (load64 (bytes ?s') (entry_ptr j + 16)) = ?n"
    by (simp only: off unat_of_nat_offset [OF nx2])
  ultimately show ?thesis
    by (simp add: r ent_data_offset_def blk_count_def del: of_nat_add of_nat_mult)
qed

lemma WriteCandles_known_symbol:
  fixes w symbol interval candles t_upd t_end
  defines "m \<equiv> bytes (mem w)"
  defines "req \<equiv> 56 + 48 * length candles"
  defines "nxt \<equiv> w_next_data_offset w"
  defines "r \<equiv> WriteCandles symbol interval candles t_upd t_end w"
  assumes ok: "region_ok w" and init: "IsInitialized w"
    and ne: "candles \<noteq> []" and le: "length candles \<le> MAX_CANDLES_PER_SYMBOL"
    and known: "Find m symbol = Some (entry_ptr j)"
  shows "load32 (bytes (mem (snd r))) idx_count = load32 m idx_count"
    and "load32 (bytes (mem (snd r))) hdr_symbol_count = load32 m hdr_symbol_count"
    and "Find (bytes (mem (snd r))) symbol = Some (entry_ptr j)"
    and "fst r = (if (load64 m (entry_ptr j + 16) \<noteq> 0 \<and> req \<le> unat (load32 m (entry_ptr j + 24)))
                     \<or> nxt + req \<le> w_size w then OK else WRITE_FAILED)"
    and "w_next_data_offset (snd r) =
           (if load64 m (entry_ptr j + 16) \<noteq> 0 \<and> req \<le> unat (load32 m (entry_ptr j + 24))
            then nxt else if nxt + req \<le> w_size w then nxt + req else nxt)"
    and "fst r = OK \<Longrightarrow>
           load64 (bytes (mem (snd r))) (entry_ptr j + 16) =
             (if load64 m (entry_ptr j + 16) \<noteq> 0 \<and> req \<le> unat (load32 m (entry_ptr j + 24))
              then load64 m (entry_ptr j + 16) else of_nat nxt) \<and>
           load32 (bytes (mem (snd r))) (entry_ptr j + 24) =
             (if load64 m (entry_ptr j + 16) \<noteq> 0 \<and> req \<le> unat (load32 m (entry_ptr j + 24))
              then load32 m (entry_ptr j + 24) else of_nat req) \<and>
           load32 (bytes (mem (snd r))) (entry_ptr j + 28) = of_nat (length candles)"
proof -
  have nl: "Find (bytes (mem w)) symbol \<noteq> None \<or> unat (load32 (bytes (mem w)) idx_count) < MAX_SYMBOLS"
    using known by (simp add: m_def)
  obtain j' s1 where res: "resolved w symbol j' s1"
    and fr: "\<And>b n. b + n \<le> 16640 \<Longrightarrow> b + n \<le> 16 \<or> 32 \<le> b \<Longrightarrow>
           b + n \<le> entry_ptr j' + 16 \<or> entry_ptr j' + 40 \<le> b \<Longrightarrow>
           load_bytes (bytes (mem (snd r))) b n = load_bytes (bytes s1) b n"
    and rs: "fst r = (if (load64 m (entry_ptr j' + 16) \<noteq> 0 \<and> req \<le> unat (load32 m (entry_ptr j' + 24)))
                     \<or> nxt + req \<le> w_size w then OK else WRITE_FAILED)"
    and nx: "w_next_data_offset (snd r) =
           (if load64 m (entry_ptr j' + 16) \<noteq> 0 \<and> req \<le> unat (load32 m (entry_ptr j' + 24))
            then nxt else if nxt + req \<le> w_size w then nxt + req else nxt)"
    and fl: "fst r = OK \<Longrightarrow>
           load64 (bytes (mem (snd r))) (entry_ptr j' + 16) =
             (if load64 m (entry_ptr j' + 16) \<noteq> 0 \<and> req \<le> unat (load32 m (entry_ptr j' + 24))
              then load64 m (entry_ptr j' + 16) else of_nat nxt) \<and>
           load32 (bytes (mem (snd r))) (entry_ptr j' + 24) =
             (if load64 m (entry_ptr j' + 16) \<noteq> 0 \<and> req \<le> unat (load32 m (entry_ptr j' + 24))
              then load32 m (entry_ptr j' + 24) else of_nat req) \<and>
           load32 (bytes (mem (snd r))) (entry_ptr j' + 28) = of_nat (length candles)"
    using WriteCandles_resolved [OF ok init ne le nl, of interval t_upd t_end]
    unfolding m_def req_def nxt_def r_def by blast
  have jj: "j' = j"
    using resolved_index_of(2) [OF res] known by (simp add: m_def)
  have j: "j < MAX_SYMBOLS" using res jj by (simp add: resolved_def)
  note rc = resolved_count [OF res]
  show c: "load32 (bytes (mem (snd r))) idx_count = load32 m idx_count"
    using fr [of idx_count 4] j jj rc(1) known by (simp add: layout_defs m_def)
  show "load32 (bytes (mem (snd r))) hdr_symbol_count = load32 m hdr_symbol_count"
    using fr [of hdr_symbol_count 4] j jj rc(2) known by (simp add: layout_defs m_def)
  have gs: "GetSymbol (bytes (mem (snd r))) (entry_ptr i) = GetSymbol m (entry_ptr i)"
    if "i < MAX_SYMBOLS" for i
  proof -
    consider "i \<le> j" | "j < i" by linarith
    then have "GetSymbol (bytes (mem (snd r))) (entry_ptr i) = GetSymbol (bytes s1) (entry_ptr i)"
      using that j jj by cases (intro GetSymbol_eqI fr; simp add: layout_defs)+
    with resolved_GetSymbol [OF res that] known show ?thesis by (simp add: m_def)
  qed
  show "Find (bytes (mem (snd r))) symbol = Some (entry_ptr j)"
    using Find_eqI [of "bytes (mem (snd r))" m symbol, OF c gs] known by simp
  show "fst r = (if (load64 m (entry_ptr j + 16) \<noteq> 0 \<and> req \<le> unat (load32 m (entry_ptr j + 24)))
                     \<or> nxt + req \<le> w_size w then OK else WRITE_FAILED)"
    using rs jj by simp
  show "w_next_data_offset (snd r) =
           (if load64 m (entry_ptr j + 16) \<noteq> 0 \<and> req \<le> unat (load32 m (entry_ptr j + 24))
            then nxt else if nxt + req \<le> w_size w then nxt + req else nxt)"
    using nx jj by simp
  show "load64 (bytes (mem (snd r))) (entry_ptr j + 16) =
             (if load64 m (entry_ptr j + 16) \<noteq> 0 \<and> req \<le> unat (load32 m (entry_ptr j + 24))
              then load64 m (entry_ptr j + 16) else of_nat nxt) \<and>
           load32 (bytes (mem (snd r))) (entry_ptr j + 24) =
             (if load64 m (entry_ptr j + 16) \<noteq> 0 \<and> req \<le> unat (load32 m (entry_ptr j + 24))
              then load32 m (entry_ptr j + 24) else of_nat req) \<and>
           load32 (bytes (mem (snd r))) (entry_ptr j + 28) = of_nat (length candles)"
    if "fst r = OK"
    using fl [OF that] jj by simp
qed

section \<open>The example regions\<close>

lemma WriteCandles_calls_snoc:
  "WriteCandles_calls (calls @ [c]) w =
     (case WriteCandles_calls calls w of
        (rs, w1) \<Rightarrow> (case WriteCandles_calls [c] w1 of (r, w2) \<Rightarrow> (rs @ r, w2)))"
proof (induction calls arbitrary: w)
  case Nil
  then show ?case by (simp split: prod.splits)
next
  case (Cons a calls)
  obtain symbol interval candles t_upd t_end where a: "a = (symbol, interval, candles, t_upd, t_end)"
    by (cases a) auto
  show ?case
    by (simp add: a Cons.IH split: prod.splits)
qed

lemma reachable_calls: "reachable w \<Longrightarrow> reachable (snd (WriteCandles_calls calls w))"
proof (induction calls arbitrary: w)
  case Nil
  then show ?case by simp
next
  case (Cons a calls)
  obtain symbol interval candles t_upd t_end where a: "a = (symbol, interval, candles, t_upd, t_end)"
    by (cases a) auto
  have "reachable (snd (WriteCandles symbol interval candles t_upd t_end w))"
    using Cons.prems by (rule reachable.r_WriteCandles)
  from Cons.IH [OF this] show ?case
    by (auto simp: a split: prod.splits)
qed

lemma unat_byte_succ: "n < 255 \<Longrightarrow> unat (of_nat n + 1 :: byte) = n + 1"
  by (simp add: unat_word_ariths unat_of_nat)

lemma ex_name_valid:
  assumes "k < 256"
  shows "take 15 (c_str (ex_name k)) = ex_name k"
proof -
  have "unat (of_nat (k mod 16) + 1 :: byte) = k mod 16 + 1"
    "unat (of_nat (k div 16) + 1 :: byte) = k div 16 + 1"
    using assms by (simp_all add: unat_byte_succ)
  then have "(of_nat (k mod 16) + 1 :: byte) \<noteq> 0" "(of_nat (k div 16) + 1 :: byte) \<noteq> 0"
    by (metis Suc_eq_plus1 nat.distinct(1) unat_0)+
  then show ?thesis
    by (simp add: ex_name_def c_str_def)
qed

lemma ex_name_inj:
  assumes "j < 256" "k < 256" "ex_name j = ex_name k"
  shows "j = k"
proof -
  have "unat (of_nat (j mod 16) + 1 :: byte) = unat (of_nat (k mod 16) + 1 :: byte)"
    "unat (of_nat (j div 16) + 1 :: byte) = unat (of_nat (k div 16) + 1 :: byte)"
    using assms(3) by (simp_all add: ex_name_def)
  then have "j mod 16 = k mod 16" "j div 16 = k div 16"
    using assms(1,2) by (simp_all add: unat_byte_succ)
  then show ?thesis
    by (metis div_mult_mod_eq)
qed

lemma ex_region_facts:
  "reachable ex_region" "IsInitialized ex_region"
  "load64 (bytes (mem ex_region)) hdr_sequence = 0"
  "load32 (bytes (mem ex_region)) idx_count = 0"
  "w_next_data_offset ex_region = 16640" "w_size ex_region = 1048576"
  unfolding ex_region_def by (simp_all add: ex_create_facts reachable_ex_create)

lemma ex_filled_Suc:
  "ex_filled (Suc k) =
     snd (WriteCandles (ex_name k) [0x31, 0x68] [ex_candle (of_nat k)] 5 6 (ex_filled k))"
  by (simp add: ex_filled_def WriteCandles_calls_snoc ex_call_def split: prod.splits)

lemma results_Suc:
  "fst (WriteCandles_calls (map ex_call [0..<k] @ [ex_call k]) ex_region) =
     fst (WriteCandles_calls (map ex_call [0..<k]) ex_region)
       @ [fst (WriteCandles (ex_name k) [0x31, 0x68] [ex_candle (of_nat k)] 5 6 (ex_filled k))]"
  by (simp add: ex_filled_def WriteCandles_calls_snoc ex_call_def split: prod.splits)

lemma ex_filled_facts:
  assumes "k \<le> 256"
  shows "reachable (ex_filled k) \<and> IsInitialized (ex_filled k) \<and>
         fst (WriteCandles_calls (map ex_call [0..<k]) ex_region) = replicate k OK \<and>
         unat (load32 (bytes (mem (ex_filled k))) idx_count) = k \<and>
         w_next_data_offset (ex_filled k) = 16640 + 104 * k \<and>
         w_size (ex_filled k) = 1048576 \<and>
         (\<forall>i<k. GetSymbol (bytes (mem (ex_filled k))) (entry_ptr i) = ex_name i)"
  using assms
proof (induction k)
  case 0
  then show ?case by (simp add: ex_filled_def ex_region_facts)
next
  case (Suc k)
  let ?w = "ex_filled k"
  let ?r = "WriteCandles (ex_name k) [0x31, 0x68] [ex_candle (of_nat k)] 5 6 ?w"
  from Suc have k: "k < 256" and IH: "reachable ?w" "IsInitialized ?w"
    "fst (WriteCandles_calls (map ex_call [0..<k]) ex_region) = replicate k OK"
    "unat (load32 (bytes (mem ?w)) idx_count) = k"
    "w_next_data_offset ?w = 16640 + 104 * k" "w_size ?w = 1048576"
    "\<forall>i<k. GetSymbol (bytes (mem ?w)) (entry_ptr i) = ex_name i"
    by simp_all
  note ok = reachable_region_ok [OF IH(1,2)]
  have c: "[ex_candle (of_nat k)] \<noteq> []" "length [ex_candle (of_nat k)] \<le> MAX_CANDLES_PER_SYMBOL"
    by (simp_all add: layout_defs)
  have fresh: "Find (bytes (mem ?w)) (ex_name k) = None"
    unfolding Find_None using IH(4,7) k ex_name_inj [of _ k] by (auto simp: MAX_SYMBOLS_def)
  have room: "unat (load32 (bytes (mem ?w)) idx_count) < MAX_SYMBOLS"
    using IH(4) k by (simp add: layout_defs)
  note n = WriteCandles_new_symbol [OF ok IH(2) c fresh room,
      where interval = "[0x31, 0x68]" and t_upd = 5 and t_end = 6]
  have cnt: "unat (load32 (bytes (mem (snd ?r))) idx_count) = Suc k"
    using n(1) unat_count_succ [of "load32 (bytes (mem ?w)) idx_count"] IH(4) k by simp
  have gs: "GetSymbol (bytes (mem (snd ?r))) (entry_ptr i) = ex_name i" if "i < Suc k" for i
  proof (cases "i = k")
    case True
    with n(3) IH(4) ex_name_valid [OF k] show ?thesis by simp
  next
    case False
    with that k n(4) [of i] IH(4,7) show ?thesis by (simp add: layout_defs)
  qed
  have res: "fst ?r = OK" and nx: "w_next_data_offset (snd ?r) = 16640 + 104 * Suc k"
    using n(5,6) IH(5,6) k by simp_all
  have "reachable (snd ?r)" using IH(1) by (rule reachable.r_WriteCandles)
  moreover have "IsInitialized (snd ?r)" "w_size (snd ?r) = 1048576"
    using IH(2,6) by (simp_all add: IsInitialized_def WriteCandles_members)
  ultimately show ?case
    using cnt gs res nx IH(3)
    by (simp add: ex_filled_Suc results_Suc replicate_append_same)
qed

lemma WriteCandles_other_entries:
  fixes w symbol interval candles t_upd t_end
  defines "m \<equiv> bytes (mem w)"
  defines "r \<equiv> WriteCandles symbol interval candles t_upd t_end w"
  assumes ok: "region_ok w" and init: "IsInitialized w"
    and ne: "candles \<noteq> []" and le: "length candles \<le> MAX_CANDLES_PER_SYMBOL"
    and fresh: "Find m symbol = None" and room: "unat (load32 m idx_count) < MAX_SYMBOLS"
    and i: "i < unat (load32 m idx_count)"
    and b: "entry_ptr i \<le> b" "b + n \<le> entry_ptr i + 40"
  shows "load_bytes (bytes (mem (snd r))) b n = load_bytes m b n"
proof -
  have nl: "Find (bytes (mem w)) symbol \<noteq> None \<or> unat (load32 (bytes (mem w)) idx_count) < MAX_SYMBOLS"
    using room by (simp add: m_def)
  obtain j s1 where res: "resolved w symbol j s1"
    and fr: "\<And>b n. b + n \<le> 16640 \<Longrightarrow> b + n \<le> 16 \<or> 32 \<le> b \<Longrightarrow>
           b + n \<le> entry_ptr j + 16 \<or> entry_ptr j + 40 \<le> b \<Longrightarrow>
           load_bytes (bytes (mem (snd r))) b n = load_bytes (bytes s1) b n"
  proof (rule WriteCandles_resolved [OF ok init ne le nl, of interval t_upd t_end])
    fix j s1
    assume "resolved w symbol j s1"
      and "\<And>b n. b + n \<le> 16640 \<Longrightarrow> b + n \<le> 16 \<or> 32 \<le> b \<Longrightarrow>
           b + n \<le> entry_ptr j + 16 \<or> entry_ptr j + 40 \<le> b \<Longrightarrow>
           load_bytes (bytes (mem (snd (WriteCandles symbol interval candles t_upd t_end w)))) b n
             = load_bytes (bytes s1) b n"
    then show thesis
      unfolding r_def [symmetric] by (rule that)
  qed
  have j: "j = unat (load32 m idx_count)" "j < MAX_SYMBOLS"
    using resolved_index_of(1) [OF res] fresh room by (simp_all add: m_def)
  have ij: "i < j" using i j(1) by simp
  have "load_bytes (bytes (mem (snd r))) b n = load_bytes (bytes s1) b n"
    using ij j(2) b by (intro fr) (simp_all add: layout_defs)
  also have "\<dots> = load_bytes (bytes (mem w)) b n"
    using ij j(2) b by (intro resolved_frame [OF res]) (simp_all add: layout_defs)
  finally show ?thesis by (simp add: m_def)
qed

lemma length_ex_long: "length ex_long = 17"
  by (simp add: ex_long_def)

lemma ex_long_1_facts:
  "fst (WriteCandles ex_long [0x31, 0x68] [ex_candle 1, ex_candle 2] 5 6 ex_region) = OK"
  "reachable ex_long_1" "IsInitialized ex_long_1" "w_size ex_long_1 = 1048576"
  "load32 (bytes (mem ex_long_1)) idx_count = 1"
  "w_next_data_offset ex_long_1 = 16792"
  "load64 (bytes (mem ex_long_1)) (entry_ptr 0 + 16) = 16640"
  "load32 (bytes (mem ex_long_1)) (entry_ptr 0 + 24) = 152"
  "GetSymbol (bytes (mem ex_long_1)) (entry_ptr 0) = take 15 ex_long"
proof -
  note ok = reachable_region_ok [OF ex_region_facts(1,2)]
  have c: "[ex_candle 1, ex_candle 2] \<noteq> []"
    "length [ex_candle 1, ex_candle 2] \<le> MAX_CANDLES_PER_SYMBOL"
    by (simp_all add: layout_defs)
  have fresh: "Find (bytes (mem ex_region)) ex_long = None"
    by (rule Find_long_name) (simp add: length_ex_long)
  have room: "unat (load32 (bytes (mem ex_region)) idx_count) < MAX_SYMBOLS"
    by (simp add: ex_region_facts MAX_SYMBOLS_def)
  note n = WriteCandles_new_symbol [OF ok ex_region_facts(2) c fresh room,
      where interval = "[0x31, 0x68]" and t_upd = 5 and t_end = 6]
  show r: "fst (WriteCandles ex_long [0x31, 0x68] [ex_candle 1, ex_candle 2] 5 6 ex_region) = OK"
    using n(5) by (simp add: ex_region_facts)
  show "reachable ex_long_1"
    unfolding ex_long_1_def using ex_region_facts(1) by (rule reachable.r_WriteCandles)
  show "IsInitialized ex_long_1" "w_size ex_long_1 = 1048576"
    using ex_region_facts(2,6)
    by (simp_all add: ex_long_1_def IsInitialized_def WriteCandles_members)
  show "load32 (bytes (mem ex_long_1)) idx_count = 1"
    using n(1) by (simp add: ex_long_1_def ex_region_facts)
  show "w_next_data_offset ex_long_1 = 16792"
    using n(6) by (simp add: ex_long_1_def ex_region_facts)
  show "load64 (bytes (mem ex_long_1)) (entry_ptr 0 + 16) = 16640"
    "load32 (bytes (mem ex_long_1)) (entry_ptr 0 + 24) = 152"
    using n(7) [OF r] by (simp_all add: ex_long_1_def ex_region_facts)
  show "GetSymbol (bytes (mem ex_long_1)) (entry_ptr 0) = take 15 ex_long"
    using n(3) by (simp add: ex_long_1_def ex_region_facts c_str_def ex_long_def)
qed

lemma ex_long_2_facts:
  "Find (bytes (mem ex_long_1)) ex_long = None"
  "fst (WriteCandles ex_long [0x31, 0x68] [ex_candle 3] 7 8 ex_long_1) = OK"
  "load32 (bytes (mem ex_long_2)) idx_count = 2"
  "load32 (bytes (mem ex_long_2)) hdr_symbol_count = 2"
  "w_next_data_offset ex_long_2 = 16896"
  "load64 (bytes (mem ex_long_2)) (entry_ptr 1 + 16) = 16792"
  "load32 (bytes (mem ex_long_2)) (entry_ptr 1 + 24) = 104"
  "load64 (bytes (mem ex_long_2)) (entry_ptr 0 + 16) = 16640"
  "load32 (bytes (mem ex_long_2)) (entry_ptr 0 + 24) = 152"
  "GetSymbol (bytes (mem ex_long_2)) (entry_ptr 0) = take 15 ex_long"
  "GetSymbol (bytes (mem ex_long_2)) (entry_ptr 1) = take 15 ex_long"
proof -
  note f1 = ex_long_1_facts
  note ok = reachable_region_ok [OF f1(2,3)]
  have c: "[ex_candle 3] \<noteq> []" "length [ex_candle 3] \<le> MAX_CANDLES_PER_SYMBOL"
    by (simp_all add: layout_defs)
  show fresh: "Find (bytes (mem ex_long_1)) ex_long = None"
    by (rule Find_long_name) (simp add: length_ex_long)
  have room: "unat (load32 (bytes (mem ex_long_1)) idx_count) < MAX_SYMBOLS"
    by (simp add: f1(5) MAX_SYMBOLS_def)
  note n = WriteCandles_new_symbol [OF ok f1(3) c fresh room,
      where interval = "[0x31, 0x68]" and t_upd = 7 and t_end = 8]
  note o = WriteCandles_other_entries [OF ok f1(3) c fresh room,
      where interval = "[0x31, 0x68]" and t_upd = 7 and t_end = 8 and i = 0]
  show r: "fst (WriteCandles ex_long [0x31, 0x68] [ex_candle 3] 7 8 ex_long_1) = OK"
    using n(5) by (simp add: f1)
  show "load32 (bytes (mem ex_long_2)) idx_count = 2"
    "load32 (bytes (mem ex_long_2)) hdr_symbol_count = 2"
    using n(1,2) by (simp_all add: ex_long_2_def f1)
  show "w_next_data_offset ex_long_2 = 16896"
    using n(6) by (simp add: ex_long_2_def f1)
  show "load64 (bytes (mem ex_long_2)) (entry_ptr 1 + 16) = 16792"
    "load32 (bytes (mem ex_long_2)) (entry_ptr 1 + 24) = 104"
    using n(7) [OF r] by (simp_all add: ex_long_2_def f1)
  show "load64 (bytes (mem ex_long_2)) (entry_ptr 0 + 16) = 16640"
    using o [of "entry_ptr 0 + 16" 8] f1(7) by (simp add: ex_long_2_def f1(5))
  show "load32 (bytes (mem ex_long_2)) (entry_ptr 0 + 24) = 152"
    using o [of "entry_ptr 0 + 24" 4] f1(8) by (simp add: ex_long_2_def f1(5))
  show "GetSymbol (bytes (mem ex_long_2)) (entry_ptr 0) = take 15 ex_long"
    using n(4) [of 0] f1(9) by (simp add: ex_long_2_def f1(5) MAX_SYMBOLS_def)
  show "GetSymbol (bytes (mem ex_long_2)) (entry_ptr 1) = take 15 ex_long"
    using n(3) by (simp add: ex_long_2_def f1(5) c_str_def ex_long_def)
qed

section \<open>Two writes under a name that fits in 15 bytes\<close>

lemma of_nat_offset_nonzero:
  "16640 \<le> n \<Longrightarrow> n \<le> 1073741824 \<Longrightarrow> (of_nat n :: 64 word) \<noteq> 0"
  using unat_of_nat_offset [of n] by (metis not_numeral_le_zero unat_0)

lemma WriteCandles_then_Find:
  fixes w symbol interval candles t_upd t_end
  defines "m \<equiv> bytes (mem w)"
  defines "r \<equiv> WriteCandles symbol interval candles t_upd t_end w"
  assumes ok: "region_ok w" and init: "IsInitialized w"
    and ne: "candles \<noteq> []" and le: "length candles \<le> MAX_CANDLES_PER_SYMBOL"
    and fits: "take 15 (c_str symbol) = symbol"
    and res: "fst r = OK"
  obtains j where "j < MAX_SYMBOLS" "Find (bytes (mem (snd r))) symbol = Some (entry_ptr j)"
    "Find m symbol = Some (entry_ptr j) \<or> (Find m symbol = None \<and> j = unat (load32 m idx_count))"
    "load64 (bytes (mem (snd r))) (entry_ptr j + 16) \<noteq> 0"
    "56 + 48 * length candles \<le> unat (load32 (bytes (mem (snd r))) (entry_ptr j + 24))"
proof -
  note nx = region_ok_cursor [OF ok]
  have nx2: "w_next_data_offset w \<le> 1073741824"
    using ok by (auto simp: region_ok_def Let_def layout_defs)
  note nz = of_nat_offset_nonzero [OF nx nx2]
  note sz = unat_of_nat_size [OF le]
  show thesis
  proof (cases "Find m symbol")
    case (Some e)
    from Find_Some [OF this] obtain j where j: "j < MAX_SYMBOLS" "e = entry_ptr j" by blast
    have known: "Find (bytes (mem w)) symbol = Some (entry_ptr j)"
      using Some j by (simp add: m_def)
    note k = WriteCandles_known_symbol [OF ok init ne le known,
        where interval = interval and t_upd = t_upd and t_end = t_end]
    have f: "load64 (bytes (mem (snd r))) (entry_ptr j + 16) \<noteq> 0 \<and>
        56 + 48 * length candles \<le> unat (load32 (bytes (mem (snd r))) (entry_ptr j + 24))"
      using k(6) res nz sz unfolding r_def
      by (auto simp del: of_nat_add of_nat_mult split: if_splits)
    show ?thesis
      using j(1) k(3) known f by (intro that [of j]) (simp_all add: r_def m_def)
  next
    case None
    have c: "unat (load32 (bytes (mem w)) idx_count) \<le> MAX_SYMBOLS"
      using ok by (simp add: region_ok_def Let_def)
    have room: "unat (load32 (bytes (mem w)) idx_count) < MAX_SYMBOLS"
    proof (rule ccontr)
      assume "\<not> ?thesis"
      with c have "unat (load32 (bytes (mem w)) idx_count) = MAX_SYMBOLS" by simp
      from WriteCandles_limit(1) [OF ok init ne le this None [unfolded m_def], of interval t_upd t_end]
        res show False by (simp add: r_def)
    qed
    let ?j = "unat (load32 (bytes (mem w)) idx_count)"
    note n = WriteCandles_new_symbol [OF ok init ne le None [unfolded m_def] room,
        where interval = interval and t_upd = t_upd and t_end = t_end]
    have cnt: "unat (load32 (bytes (mem (snd r))) idx_count) = ?j + 1"
      using n(1) unat_count_succ [of "load32 (bytes (mem w)) idx_count"] room
      by (simp add: r_def layout_defs)
    have old: "\<forall>k<?j. GetSymbol (bytes (mem (snd r))) (entry_ptr k) \<noteq> symbol"
    proof (intro allI impI)
      fix k assume k: "k < ?j"
      then have "GetSymbol (bytes (mem (snd r))) (entry_ptr k) = GetSymbol (bytes (mem w)) (entry_ptr k)"
        using n(4) [of k] room by (simp add: r_def m_def)
      moreover have "GetSymbol (bytes (mem w)) (entry_ptr k) \<noteq> symbol"
        using None k room unfolding Find_None m_def by simp
      ultimately show "GetSymbol (bytes (mem (snd r))) (entry_ptr k) \<noteq> symbol" by simp
    qed
    have "Find (bytes (mem (snd r))) symbol = Some (entry_ptr ?j)"
      using cnt room n(3) fits old by (intro Find_first) (simp_all add: r_def)
    moreover have "load64 (bytes (mem (snd r))) (entry_ptr ?j + 16) \<noteq> 0 \<and>
        56 + 48 * length candles \<le> unat (load32 (bytes (mem (snd r))) (entry_ptr ?j + 24))"
      using n(7) res nz sz unfolding r_def by (simp del: of_nat_add of_nat_mult)
    ultimately show ?thesis
      using room None by (intro that [of ?j]) (simp_all add: m_def)
  qed
qed

lemma second_write_same_entry:
  fixes w symbol iv1 cs1 t1 t2 iv2 cs2 t3 t4
  defines "w1 \<equiv> snd (WriteCandles symbol iv1 cs1 t1 t2 w)"
  defines "w2 \<equiv> snd (WriteCandles symbol iv2 cs2 t3 t4 w1)"
  assumes "reachable w" "IsInitialized w"
    and fits: "take 15 (c_str symbol) = symbol"
    and c1: "cs1 \<noteq> []" "length cs1 \<le> MAX_CANDLES_PER_SYMBOL"
    and c2: "cs2 \<noteq> []" "length cs2 \<le> MAX_CANDLES_PER_SYMBOL"
    and first: "fst (WriteCandles symbol iv1 cs1 t1 t2 w) = OK"
  shows "Find (bytes (mem w1)) symbol \<noteq> None \<and>
         Find (bytes (mem w2)) symbol = Find (bytes (mem w1)) symbol \<and>
         load32 (bytes (mem w2)) idx_count = load32 (bytes (mem w1)) idx_count \<and>
         load32 (bytes (mem w2)) hdr_symbol_count = load32 (bytes (mem w1)) hdr_symbol_count"
proof -
  note ok = reachable_region_ok [OF assms(3,4)]
  from WriteCandles_then_Find [OF ok assms(4) c1 fits first]
  obtain j where j: "Find (bytes (mem w1)) symbol = Some (entry_ptr j)"
    unfolding w1_def by blast
  have ok1: "region_ok w1" "IsInitialized w1"
    using WriteCandles_region_ok [OF ok assms(4), of symbol iv1 cs1 t1 t2] assms(4)
    by (simp_all add: w1_def IsInitialized_def WriteCandles_members)
  note k = WriteCandles_known_symbol [OF ok1 c2 j,
      where interval = iv2 and t_upd = t3 and t_end = t4]
  show ?thesis
    using j k(1,2,3) by (simp add: w2_def)
qed

lemma second_write_block:
  fixes w symbol iv1 cs1 t1 t2 iv2 cs2 t3 t4
  defines "w1 \<equiv> snd (WriteCandles symbol iv1 cs1 t1 t2 w)"
  defines "w2 \<equiv> snd (WriteCandles symbol iv2 cs2 t3 t4 w1)"
  defines "req \<equiv> 56 + 48 * length cs2"
  assumes "reachable w" "IsInitialized w"
    and fits: "take 15 (c_str symbol) = symbol"
    and c1: "cs1 \<noteq> []" "length cs1 \<le> MAX_CANDLES_PER_SYMBOL"
    and c2: "cs2 \<noteq> []" "length cs2 \<le> MAX_CANDLES_PER_SYMBOL"
    and first: "fst (WriteCandles symbol iv1 cs1 t1 t2 w) = OK"
    and second: "fst (WriteCandles symbol iv2 cs2 t3 t4 w1) = OK"
  obtains e where "Find (bytes (mem w1)) symbol = Some e" "Find (bytes (mem w2)) symbol = Some e"
    and "req \<le> unat (load32 (bytes (mem w1)) (ent_data_size e)) \<Longrightarrow>
           load64 (bytes (mem w2)) (ent_data_offset e) = load64 (bytes (mem w1)) (ent_data_offset e) \<and>
           load32 (bytes (mem w2)) (ent_data_size e) = load32 (bytes (mem w1)) (ent_data_size e) \<and>
           load32 (bytes (mem w2)) (blk_count (unat (load64 (bytes (mem w1)) (ent_data_offset e))))
             = of_nat (length cs2) \<and>
           w_next_data_offset w2 = w_next_data_offset w1"
    and "unat (load32 (bytes (mem w1)) (ent_data_size e)) < req \<Longrightarrow>
           unat (load64 (bytes (mem w2)) (ent_data_offset e)) = w_next_data_offset w1 \<and>
           unat (load32 (bytes (mem w2)) (ent_data_size e)) = req \<and>
           load32 (bytes (mem w2)) (blk_count (w_next_data_offset w1)) = of_nat (length cs2) \<and>
           w_next_data_offset w2 = w_next_data_offset w1 + req \<and>
           unat (load64 (bytes (mem w1)) (ent_data_offset e)) < w_next_data_offset w1"
proof -
  note ok = reachable_region_ok [OF assms(4,5)]
  from WriteCandles_then_Find [OF ok assms(5) c1 fits first]
  obtain j where j: "j < MAX_SYMBOLS" "Find (bytes (mem w1)) symbol = Some (entry_ptr j)"
    "load64 (bytes (mem w1)) (entry_ptr j + 16) \<noteq> 0"
    "56 + 48 * length cs1 \<le> unat (load32 (bytes (mem w1)) (entry_ptr j + 24))"
    unfolding w1_def by blast
  have ok1: "region_ok w1" "IsInitialized w1"
    using WriteCandles_region_ok [OF ok assms(5), of symbol iv1 cs1 t1 t2] assms(5)
    by (simp_all add: w1_def IsInitialized_def WriteCandles_members)
  note k = WriteCandles_known_symbol [OF ok1 c2 j(2),
      where interval = iv2 and t_upd = t3 and t_end = t4]
  note bc = WriteCandles_block_count [OF ok1 c2 disjI1 [OF j(2)] second, folded w2_def]
  note e = region_ok_entry [OF ok1(1) j(1,3)]
  have nx2: "w_next_data_offset w1 \<le> 1073741824"
    using ok1(1) by (auto simp: region_ok_def Let_def layout_defs)
  note f = k(6) [OF second, folded w2_def req_def]
  show thesis
  proof (rule that [of "entry_ptr j"])
    show "Find (bytes (mem w1)) symbol = Some (entry_ptr j)" by fact
    show "Find (bytes (mem w2)) symbol = Some (entry_ptr j)"
      using k(3) by (simp add: w2_def)
    show "load64 (bytes (mem w2)) (ent_data_offset (entry_ptr j))
            = load64 (bytes (mem w1)) (ent_data_offset (entry_ptr j)) \<and>
          load32 (bytes (mem w2)) (ent_data_size (entry_ptr j))
            = load32 (bytes (mem w1)) (ent_data_size (entry_ptr j)) \<and>
          load32 (bytes (mem w2))
              (blk_count (unat (load64 (bytes (mem w1)) (ent_data_offset (entry_ptr j)))))
            = of_nat (length cs2) \<and>
          w_next_data_offset w2 = w_next_data_offset w1"
      if "req \<le> unat (load32 (bytes (mem w1)) (ent_data_size (entry_ptr j)))"
      using that j(3) f bc k(5) [folded w2_def req_def]
      by (simp add: ent_data_offset_def ent_data_size_def del: of_nat_add of_nat_mult)
    show "unat (load64 (bytes (mem w2)) (ent_data_offset (entry_ptr j))) = w_next_data_offset w1 \<and>
          unat (load32 (bytes (mem w2)) (ent_data_size (entry_ptr j))) = req \<and>
          load32 (bytes (mem w2)) (blk_count (w_next_data_offset w1)) = of_nat (length cs2) \<and>
          w_next_data_offset w2 = w_next_data_offset w1 + req \<and>
          unat (load64 (bytes (mem w1)) (ent_data_offset (entry_ptr j))) < w_next_data_offset w1"
      if lt: "unat (load32 (bytes (mem w1)) (ent_data_size (entry_ptr j))) < req"
    proof -
      have fail: "\<not> (load64 (bytes (mem w1)) (entry_ptr j + 16) \<noteq> 0 \<and>
                     req \<le> unat (load32 (bytes (mem w1)) (entry_ptr j + 24)))"
        using lt by (simp add: ent_data_size_def)
      have room: "w_next_data_offset w1 + req \<le> w_size w1"
        using k(4) [folded req_def] second fail by (simp split: if_splits)
      have o: "load64 (bytes (mem w2)) (entry_ptr j + 16) = of_nat (w_next_data_offset w1)"
        and s: "load32 (bytes (mem w2)) (entry_ptr j + 24) = of_nat req"
        using f fail by simp_all
      have uo: "unat (load64 (bytes (mem w2)) (entry_ptr j + 16)) = w_next_data_offset w1"
        by (simp only: o unat_of_nat_offset [OF nx2])
      have us: "unat (load32 (bytes (mem w2)) (entry_ptr j + 24)) = req"
        by (simp only: s req_def unat_of_nat_size [OF c2(2)])
      have "load32 (bytes (mem w2)) (blk_count (w_next_data_offset w1)) = of_nat (length cs2)"
        using bc by (simp only: ent_data_offset_def uo)
      moreover have "w_next_data_offset w2 = w_next_data_offset w1 + req"
        using k(5) [folded w2_def req_def] fail room by simp
      moreover have "unat (load64 (bytes (mem w1)) (entry_ptr j + 16)) < w_next_data_offset w1"
        using e(2) j(4) by simp
      ultimately show ?thesis
        using uo us by (simp add: ent_data_offset_def ent_data_size_def)
    qed
  qed
qed

section \<open>Stores inside the region\<close>

lemma stores_within_store_bytes:
  "stores_within sz (store_bytes a bs s) \<longleftrightarrow> stores_within sz s \<and> a + length bs \<le> sz"
  by (simp add: stores_within_def store_bytes_def)

lemma stores_within_empty: "stores_within sz \<lparr>bytes = m, writes = []\<rparr>"
  by (simp add: stores_within_def)

lemma stores_within_simps:
  "stores_within sz (store32 a v s) \<longleftrightarrow> stores_within sz s \<and> a + 4 \<le> sz"
  "stores_within sz (store64 a v' s) \<longleftrightarrow> stores_within sz s \<and> a + 8 \<le> sz"
  "stores_within sz (memset0 a n s) \<longleftrightarrow> stores_within sz s \<and> a + n \<le> sz"
  "stores_within sz (SetSymbol a symb s) \<longleftrightarrow> stores_within sz s \<and> a + 16 \<le> sz"
  "stores_within sz (SetInterval a symb s) \<longleftrightarrow> stores_within sz s \<and> a + 8 \<le> sz"
  "stores_within sz (store_candle a c s) \<longleftrightarrow> stores_within sz s \<and> a + 48 \<le> sz"
  "stores_within sz (begin_write s) \<longleftrightarrow> stores_within sz s \<and> 32 \<le> sz"
  "stores_within sz (end_write t s) \<longleftrightarrow> stores_within sz s \<and> 32 \<le> sz"
  by (auto simp: store32_def store64_def memset0_def SetSymbol_def SetInterval_def
      store_candle_def begin_write_def end_write_def stores_within_store_bytes layout_defs)

lemma stores_within_copy_candles:
  "stores_within sz s \<Longrightarrow> p + 48 * length cs \<le> sz \<Longrightarrow> stores_within sz (copy_candles p cs s)"
  by (induction cs arbitrary: p s) (simp_all add: stores_within_simps layout_defs)

lemma stores_within_fill_block:
  "stores_within sz s \<Longrightarrow> d + 56 + 48 * length cs \<le> sz \<Longrightarrow> e + 40 \<le> sz \<Longrightarrow>
   stores_within sz (fill_block e d symb iv cs t s)"
  by (simp add: fill_block_def Let_def stores_within_simps stores_within_copy_candles layout_defs)

lemma stores_within_resolved:
  "resolved w symbol j s1 \<Longrightarrow> stores_within sz (mem w) \<Longrightarrow> 10504 \<le> sz \<Longrightarrow>
   stores_within sz s1"
  unfolding resolved_def Let_def
  by (elim conjE disjE) (simp_all add: stores_within_simps layout_defs)

lemma WriteCandles_in_bounds:
  assumes ok: "region_ok w" and init: "IsInitialized w"
    and big: "10504 \<le> w_size w" and ib: "in_bounds w"
  shows "in_bounds (snd (WriteCandles symbol interval candles t_upd t_end w))"
proof (cases "candles \<noteq> [] \<and> length candles \<le> MAX_CANDLES_PER_SYMBOL")
  case False
  with ib init show ?thesis by (auto simp: WriteCandles_def)
next
  case True
  then have ne: "candles \<noteq> []" and le: "length candles \<le> MAX_CANDLES_PER_SYMBOL" by simp_all
  have sw: "stores_within (w_size w) (mem w)" using ib by (simp add: in_bounds_def)
  from ok init ne le show ?thesis
  proof (cases rule: WriteCandles_cases [where symbol = symbol and interval = interval
        and t_upd = t_upd and t_end = t_end])
    case limit
    with sw big show ?thesis by (simp add: in_bounds_def stores_within_simps)
  next
    case (failed j s1)
    with stores_within_resolved [OF failed(1) sw big] big show ?thesis
      by (simp add: in_bounds_def stores_within_simps)
  next
    case (reused j s1)
    have j: "j < MAX_SYMBOLS" using reused(1) by (simp add: resolved_def)
    note e = region_ok_entry [OF ok j reused(2)]
    have "w_next_data_offset w \<le> w_size w"
      using ok e reused(3) by (auto simp: region_ok_def Let_def layout_defs)
    with e reused(3) j big have "stores_within (w_size w)
        (fill_block (entry_ptr j) (unat (load64 (bytes (mem w)) (entry_ptr j + 16)))
           symbol interval candles t_upd s1)"
      by (intro stores_within_fill_block stores_within_resolved [OF reused(1) sw big])
         (simp_all add: layout_defs)
    with reused(4) big show ?thesis
      by (simp add: in_bounds_def stores_within_simps)
  next
    case (allocated j s1)
    have j: "j < MAX_SYMBOLS" using allocated(1) by (simp add: resolved_def)
    have "stores_within (w_size w)
        (fill_block (entry_ptr j) (w_next_data_offset w) symbol interval candles t_upd
          (store32 (entry_ptr j + 24) (of_nat (56 + 48 * length candles))
             (store64 (entry_ptr j + 16) (of_nat (w_next_data_offset w))
                (memset0 (w_next_data_offset w) (56 + 48 * length candles) s1))))"
      using allocated(3) j big stores_within_resolved [OF allocated(1) sw big]
      by (intro stores_within_fill_block) (simp_all add: stores_within_simps layout_defs)
    with allocated(4) big show ?thesis
      by (simp add: in_bounds_def stores_within_simps)
  qed
qed

lemma Create_in_bounds:
  assumes "fst (Create os pid now name sz w) = OK" "10504 \<le> sz"
  shows "in_bounds (snd (Create os pid now name sz w))"
  using assms
  by (auto simp: Create_def platform_create_def Let_def initialize_region_def in_bounds_def
      stores_within_simps stores_within_empty layout_defs split: os_result.splits if_splits)

lemma reachable_in_bounds:
  "reachable w \<Longrightarrow> IsInitialized w \<Longrightarrow> 10504 \<le> w_size w \<Longrightarrow> in_bounds w"
proof (induction rule: reachable.induct)
  case (r_new s)
  then show ?case by (simp add: IsInitialized_def new_writer_def)
next
  case (r_Create w os pid now name sz)
  show ?case
  proof (cases rule: Create_cases [of os pid now name sz w])
    case rejected
    with r_Create show ?thesis by simp
  next
    case os_failed
    with r_Create.prems show ?thesis by simp
  next
    case created
    with r_Create.prems Create_sequence(4) [OF created(1)] show ?thesis
      by (intro Create_in_bounds) simp_all
  qed
next
  case (r_WriteCandles w symbol interval candles t_upd t_end)
  then have i: "IsInitialized w" and b: "10504 \<le> w_size w"
    by (simp_all add: IsInitialized_def WriteCandles_members)
  from reachable_region_ok [OF r_WriteCandles.hyps i] i b r_WriteCandles.IH [OF i b]
  show ?case by (rule WriteCandles_in_bounds)
next
  case (r_Close w)
  then show ?case by (simp add: IsInitialized_def Close_def)
qed

section \<open>The sequence counter\<close>



text \<open>
  Claim C4, as amended. From a region just created, after any calls of \<open>WriteCandles\<close>
  that all return \<open>OK\<close>, the sequence is twice the number of those calls whose candle
  list was not empty, and is even; so it is \<open>2N\<close> after \<open>N\<close> such calls when no list is
  empty. The count is that of the 64-bit field.
\<close>

theorem sequence_after_calls:
  assumes "fst (Create os pid now name sz w0) = OK"
    and "WriteCandles_calls calls (snd (Create os pid now name sz w0)) = (rs, w')"
    and "\<forall>r\<in>set rs. r = OK"
  shows "load64 (bytes (mem w')) hdr_sequence = 2 * of_nat (length (filter nonempty_call calls)) \<and>
         \<not> IsWriting (bytes (mem w')) \<and>
         ((\<forall>c\<in>set calls. nonempty_call c) \<longrightarrow>
            load64 (bytes (mem w')) hdr_sequence = 2 * of_nat (length calls))"
proof -
  have ok: "region_ok (snd (Create os pid now name sz w0))"
    "IsInitialized (snd (Create os pid now name sz w0))"
    using assms(1) by (cases rule: Create_cases [of os pid now name sz w0]; simp)+
  from WriteCandles_calls_sequence [OF ok assms(2,3)] Create_sequence(1) [OF assms(1)]
  have "load64 (bytes (mem w')) hdr_sequence = 2 * of_nat (length (filter nonempty_call calls))"
    and "region_ok w'"
    by simp_all
  moreover have "filter nonempty_call calls = calls" if "\<forall>c\<in>set calls. nonempty_call c"
    using that by simp
  ultimately show ?thesis
    by (auto simp: region_ok_def Let_def)
qed

theorem sequence_after_calls_witness:
  "fst (ex_create 1048576) = OK \<and>
   WriteCandles_calls (map ex_call [0..<3]) (snd (ex_create 1048576))
     = ([OK, OK, OK], ex_filled 3) \<and>
   load64 (bytes (mem (ex_filled 3))) hdr_sequence = 6"
proof -
  have a: "fst (Create (Mapped 3 zero_mem) 1 1000 [0x74] 1048576 ex_new) = OK"
    using ex_create_eval [of 1048576] by (simp add: ex_create_def)
  have b: "WriteCandles_calls (map ex_call [0..<3])
             (snd (Create (Mapped 3 zero_mem) 1 1000 [0x74] 1048576 ex_new))
           = (replicate 3 OK, ex_filled 3)"
    using ex_filled_facts [of 3]
    by (simp add: prod_eq_iff ex_filled_def ex_region_def ex_create_def)
  have c: "\<forall>r\<in>set (replicate 3 OK). r = OK" by simp
  have n: "length (filter nonempty_call (map ex_call [0..<3])) = 3"
    by (simp add: nonempty_call_def ex_call_def upt_rec_numeral)
  show ?thesis
    using a b sequence_after_calls [OF a b c]
    by (simp add: n ex_create_def numeral_3_eq_3 nonempty_call_def ex_call_def)
qed

text \<open>
  Claim C4 as stated fails: a call with an empty candle list returns \<open>OK\<close> and leaves the
  sequence at 0, so after this one successful call the sequence is not 2.
\<close>

theorem empty_write_keeps_sequence:
  "fst (ex_create 1048576) = OK \<and>
   WriteCandles_calls [([0x41], [0x31, 0x68], [], 5, 6)] (snd (ex_create 1048576))
     = ([OK], snd (ex_create 1048576)) \<and>
   load64 (bytes (mem (snd (ex_create 1048576)))) hdr_sequence \<noteq> 2 * of_nat (length [OK])"
  by (simp add: ex_create_facts WriteCandles_def) (simp add: ex_create_eval)

section \<open>The symbol index\<close>

text \<open>
  Claim C7, as amended. On a reachable, initialized writer whose index holds 256 entries, a
  \<open>WriteCandles\<close> call for a symbol whose truncation to 15 bytes differs from every stored
  name returns \<open>SYMBOL_LIMIT_EXCEEDED\<close> when its candle list is non-empty and has at most
  100,000 candles; it returns \<open>OK\<close> when the list is empty and \<open>CANDLE_LIMIT_EXCEEDED\<close>
  when the list is longer. In all three cases the index count and the header's symbol count
  are still 256, the bytes of all 256 entries are the same, as is every byte from offset 32
  on, and the cursor has not moved.
\<close>

theorem WriteCandles_index_full:
  assumes "reachable w" "IsInitialized w"
    and "unat (load32 (bytes (mem w)) idx_count) = MAX_SYMBOLS"
    and "\<forall>i<MAX_SYMBOLS. GetSymbol (bytes (mem w)) (entry_ptr i) \<noteq> take 15 (c_str symbol)"
  shows "fst (WriteCandles symbol interval candles t_upd t_end w)
           = (if candles = [] then OK
              else if MAX_CANDLES_PER_SYMBOL < length candles then CANDLE_LIMIT_EXCEEDED
              else SYMBOL_LIMIT_EXCEEDED) \<and>
         unat (load32 (bytes (mem (snd (WriteCandles symbol interval candles t_upd t_end w))))
                 idx_count) = MAX_SYMBOLS \<and>
         unat (load32 (bytes (mem (snd (WriteCandles symbol interval candles t_upd t_end w))))
                 hdr_symbol_count) = MAX_SYMBOLS \<and>
         load_bytes (bytes (mem (snd (WriteCandles symbol interval candles t_upd t_end w))))
             idx_entries sizeof_entries
           = load_bytes (bytes (mem w)) idx_entries sizeof_entries \<and>
         (\<forall>x\<ge>32. bytes (mem (snd (WriteCandles symbol interval candles t_upd t_end w))) x
                   = bytes (mem w) x) \<and>
         w_next_data_offset (snd (WriteCandles symbol interval candles t_upd t_end w))
           = w_next_data_offset w"
proof -
  note ok = reachable_region_ok [OF assms(1,2)]
  have sc: "load32 (bytes (mem w)) hdr_symbol_count = load32 (bytes (mem w)) idx_count"
    using ok by (simp add: region_ok_def Let_def)
  show ?thesis
  proof (cases "candles = [] \<or> MAX_CANDLES_PER_SYMBOL < length candles")
    case True
    then have "WriteCandles symbol interval candles t_upd t_end w
                 = (if candles = [] then OK else CANDLE_LIMIT_EXCEEDED, w)"
      using assms(2) by (auto simp: WriteCandles_def)
    with True assms(3) sc show ?thesis by auto
  next
    case False
    then have c: "candles \<noteq> []" "length candles \<le> MAX_CANDLES_PER_SYMBOL" by simp_all
    note none = region_ok_Find_None [OF ok assms(4)]
    note lim = WriteCandles_limit [OF ok assms(2) c assms(3) none, of interval t_upd t_end]
    have "bytes (end_write t_end (begin_write (mem w))) x = bytes (mem w) x" if "32 \<le> x" for x
      unfolding bytes_eq_load using that by (simp add: frames)
    then show ?thesis
      using assms(3) sc c by (simp add: lim frames layout_defs)
  qed
qed

theorem WriteCandles_index_full_witness:
  "reachable (ex_filled 256) \<and> IsInitialized (ex_filled 256) \<and>
   unat (load32 (bytes (mem (ex_filled 256))) idx_count) = 256 \<and>
   GetSymbol (bytes (mem (ex_filled 256))) (entry_ptr 255) = ex_name 255 \<and>
   fst (WriteCandles [0x5A] [0x31, 0x68] [ex_candle 0] 5 6 (ex_filled 256))
     = SYMBOL_LIMIT_EXCEEDED \<and>
   unat (load32 (bytes (mem (snd (WriteCandles [0x5A] [0x31, 0x68] [ex_candle 0] 5 6
           (ex_filled 256))))) idx_count) = 256"
proof -
  have f: "reachable (ex_filled 256)" "IsInitialized (ex_filled 256)"
    "unat (load32 (bytes (mem (ex_filled 256))) idx_count) = MAX_SYMBOLS"
    "\<forall>i<256. GetSymbol (bytes (mem (ex_filled 256))) (entry_ptr i) = ex_name i"
    using ex_filled_facts [of 256] by (simp_all add: MAX_SYMBOLS_def)
  have d: "\<forall>i<MAX_SYMBOLS. GetSymbol (bytes (mem (ex_filled 256))) (entry_ptr i)
             \<noteq> take 15 (c_str [0x5A])"
    using f(4) by (simp add: MAX_SYMBOLS_def ex_name_def c_str_def)
  show ?thesis
    using f WriteCandles_index_full [OF f(1,2) f(3) d, of "[0x31, 0x68]" "[ex_candle 0]" 5 6]
    by (simp add: MAX_SYMBOLS_def MAX_CANDLES_PER_SYMBOL_def)
qed

text \<open>
  Claim C7 as stated fails for a candle list that is empty or too long: \<open>WriteCandles\<close>
  checks the list before it begins the transaction and looks the symbol up. The index of
  \<open>ex_filled 256\<close> holds 256 entries, and \<open>Find\<close> does not find the name "Z" there; yet the
  call for "Z" returns \<open>OK\<close> with an empty list and \<open>CANDLE_LIMIT_EXCEEDED\<close> with 100,001
  candles, not \<open>SYMBOL_LIMIT_EXCEEDED\<close>.
\<close>

theorem index_full_empty_or_long_list:
  "reachable (ex_filled 256) \<and> IsInitialized (ex_filled 256) \<and>
   unat (load32 (bytes (mem (ex_filled 256))) idx_count) = 256 \<and>
   unat (load32 (bytes (mem (ex_filled 256))) hdr_symbol_count) = 256 \<and>
   Find (bytes (mem (ex_filled 256))) [0x5A] = None \<and>
   fst (WriteCandles [0x5A] [0x31, 0x68] [] 5 6 (ex_filled 256)) = OK \<and>
   fst (WriteCandles [0x5A] [0x31, 0x68] [] 5 6 (ex_filled 256)) \<noteq> SYMBOL_LIMIT_EXCEEDED \<and>
   fst (WriteCandles [0x5A] [0x31, 0x68] (replicate 100001 (ex_candle 0)) 5 6 (ex_filled 256))
     = CANDLE_LIMIT_EXCEEDED \<and>
   fst (WriteCandles [0x5A] [0x31, 0x68] (replicate 100001 (ex_candle 0)) 5 6 (ex_filled 256))
     \<noteq> SYMBOL_LIMIT_EXCEEDED"
proof -
  have f: "reachable (ex_filled 256)" "IsInitialized (ex_filled 256)"
    "unat (load32 (bytes (mem (ex_filled 256))) idx_count) = 256"
    "\<forall>i<256. GetSymbol (bytes (mem (ex_filled 256))) (entry_ptr i) = ex_name i"
    using ex_filled_facts [of 256] by simp_all
  note ok = reachable_region_ok [OF f(1,2)]
  have sc: "load32 (bytes (mem (ex_filled 256))) hdr_symbol_count
              = load32 (bytes (mem (ex_filled 256))) idx_count"
    using ok by (simp add: region_ok_def Let_def)
  have "\<forall>i<MAX_SYMBOLS. GetSymbol (bytes (mem (ex_filled 256))) (entry_ptr i)
          \<noteq> take 15 (c_str [0x5A])"
    using f(4) by (simp add: MAX_SYMBOLS_def ex_name_def c_str_def)
  then have n: "Find (bytes (mem (ex_filled 256))) [0x5A] = None"
    by (rule region_ok_Find_None [OF ok])
  show ?thesis
    using f(1-3) n sc by (simp add: WriteCandles_def MAX_CANDLES_PER_SYMBOL_def)
qed

text \<open>
  Claim C2 at a name of 17 bytes, "BTCUSDT\_PERPETUAL", written twice into a fresh 1 MiB
  region. Both calls return \<open>OK\<close>. \<open>Find\<close> compares the stored, truncated name with the
  whole name given, so the second call does not find the entry of the first: the index
  count and the header's symbol count go from 1 to 2, and entries 0 and 1 hold the same
  stored name.
\<close>

theorem long_name_second_write_adds_entry:
  "length ex_long = 17 \<and>
   fst (WriteCandles ex_long [0x31, 0x68] [ex_candle 1, ex_candle 2] 5 6 ex_region) = OK \<and>
   unat (load32 (bytes (mem ex_long_1)) idx_count) = 1 \<and>
   Find (bytes (mem ex_long_1)) ex_long = None \<and>
   fst (WriteCandles ex_long [0x31, 0x68] [ex_candle 3] 7 8 ex_long_1) = OK \<and>
   unat (load32 (bytes (mem ex_long_2)) idx_count) = 2 \<and>
   unat (load32 (bytes (mem ex_long_2)) hdr_symbol_count) = 2 \<and>
   GetSymbol (bytes (mem ex_long_2)) (entry_ptr 0) = GetSymbol (bytes (mem ex_long_2)) (entry_ptr 1)"
  by (simp add: length_ex_long ex_long_1_facts ex_long_2_facts [unfolded One_nat_def])

text \<open>
  Claim C6 at the same name: two candles, then one. The entry of the first call records a
  block of 152 bytes at 16640, and one candle needs 104 bytes; yet the second call, not
  finding that entry, takes a new block at 16792 for a second entry and moves the cursor to
  16896. Entry 0 still points at 16640.
\<close>

theorem long_name_smaller_write_allocates:
  "fst (WriteCandles ex_long [0x31, 0x68] [ex_candle 1, ex_candle 2] 5 6 ex_region) = OK \<and>
   unat (load64 (bytes (mem ex_long_1)) (ent_data_offset (entry_ptr 0))) = 16640 \<and>
   unat (load32 (bytes (mem ex_long_1)) (ent_data_size (entry_ptr 0))) = 152 \<and>
   w_next_data_offset ex_long_1 = 16792 \<and>
   RequiredSize (of_nat (length [ex_candle 3])) = 104 \<and>
   fst (WriteCandles ex_long [0x31, 0x68] [ex_candle 3] 7 8 ex_long_1) = OK \<and>
   w_next_data_offset ex_long_2 = 16896 \<and>
   unat (load64 (bytes (mem ex_long_2)) (ent_data_offset (entry_ptr 1))) = 16792 \<and>
   unat (load32 (bytes (mem ex_long_2)) (ent_data_size (entry_ptr 1))) = 104 \<and>
   unat (load64 (bytes (mem ex_long_2)) (ent_data_offset (entry_ptr 0))) = 16640"
  by (simp add: ex_long_1_facts ex_long_2_facts [unfolded One_nat_def] ent_data_offset_def
      ent_data_size_def RequiredSize_def sizeof_Candle_def sizeof_OHLCVDataBlock_def)

section \<open>The block allocator\<close>

text \<open>
  Claim C5. With the cursor at or after the data section and no overflow of \<open>size_t\<close> in
  \<open>cursor + size\<close>, \<open>allocate_data_block\<close> returns 0 exactly when \<open>cursor + size\<close> exceeds
  the region's size; the writer is then unchanged and \<open>WriteCandles\<close>' allocation step
  gives up (\<open>WRITE_FAILED\<close>). Otherwise it returns the cursor, moves the cursor on by
  \<open>size\<close>, and its one store zeroes all \<open>size\<close> bytes from the returned offset.
\<close>

theorem allocate_data_block_spec:
  assumes "DATA_SECTIONS_OFFSET \<le> w_next_data_offset w"
    and "w_next_data_offset w + sz < 2 ^ 64"
  shows "(fst (allocate_data_block sz w) = 0 \<longleftrightarrow> w_size w < w_next_data_offset w + sz) \<and>
         (w_size w < w_next_data_offset w + sz \<longrightarrow>
            snd (allocate_data_block sz w) = w \<and>
            (load64 (bytes (mem w)) (ent_data_offset entry) = 0 \<or>
             unat (load32 (bytes (mem w)) (ent_data_size entry)) < sz \<longrightarrow>
               fst (place_block entry sz w) = None)) \<and>
         (w_next_data_offset w + sz \<le> w_size w \<longrightarrow>
            fst (allocate_data_block sz w) = w_next_data_offset w \<and>
            w_next_data_offset (snd (allocate_data_block sz w)) = w_next_data_offset w + sz \<and>
            (\<forall>x. w_next_data_offset w \<le> x \<and> x < w_next_data_offset w + sz \<longrightarrow>
                 bytes (mem (snd (allocate_data_block sz w))) x = 0) \<and>
            writes (mem (snd (allocate_data_block sz w)))
              = writes (mem w) @ [(w_next_data_offset w, sz)])"
  using assms
  by (auto simp: allocate_data_block_def place_block_def Let_def memset0_def store_bytes_def
      layout_defs)

theorem allocate_data_block_spec_witness:
  "DATA_SECTIONS_OFFSET \<le> w_next_data_offset ex_region \<and>
   allocate_data_block 104 ex_small = (0, ex_small) \<and>
   fst (allocate_data_block 104 ex_region) = 16640 \<and>
   w_next_data_offset (snd (allocate_data_block 104 ex_region)) = 16744 \<and>
   bytes (mem (snd (allocate_data_block 104 ex_region))) 16700 = 0"
proof -
  have a: "DATA_SECTIONS_OFFSET \<le> w_next_data_offset ex_region"
    "w_next_data_offset ex_region + 104 < 2 ^ 64"
    "DATA_SECTIONS_OFFSET \<le> w_next_data_offset ex_small"
    "w_next_data_offset ex_small + 104 < 2 ^ 64"
    by (simp_all add: ex_region_def ex_small_def ex_create_facts layout_defs)
  have b: "w_next_data_offset ex_region = 16640" "w_size ex_region = 1048576"
    "w_next_data_offset ex_small = 16640" "w_size ex_small = 4352"
    by (simp_all add: ex_region_def ex_small_def ex_create_facts)
  show ?thesis
    using a(1) allocate_data_block_spec [OF a(1,2), of 0] allocate_data_block_spec [OF a(3,4), of 0]
    by (simp add: b prod_eq_iff)
qed

section \<open>Validation, statistics and initialization\<close>

text \<open>
  Claim C8. On an initialized writer, \<open>WriteCandles\<close> with an empty candle list returns
  \<open>OK\<close> and with more than 100,000 candles returns \<open>CANDLE_LIMIT_EXCEEDED\<close>; in both
  cases the writer returned is the writer given: members, cursor, every byte of the region and
  the trace of stores are the same.
\<close>

theorem WriteCandles_empty_or_too_long:
  "IsInitialized w \<Longrightarrow>
   WriteCandles symbol interval [] t_upd t_end w = (OK, w) \<and>
   (\<forall>candles. length candles > MAX_CANDLES_PER_SYMBOL \<longrightarrow>
      WriteCandles symbol interval candles t_upd t_end w = (CANDLE_LIMIT_EXCEEDED, w))"
  by (auto simp: WriteCandles_def)

theorem WriteCandles_empty_or_too_long_witness:
  "IsInitialized (snd (ex_create 1048576)) \<and>
   WriteCandles [0x41] [0x31, 0x68] [] 5 6 (snd (ex_create 1048576))
     = (OK, snd (ex_create 1048576)) \<and>
   WriteCandles [0x41] [0x31, 0x68] (replicate 100001 (ex_candle 0)) 5 6 (snd (ex_create 1048576))
     = (CANDLE_LIMIT_EXCEEDED, snd (ex_create 1048576))"
  using WriteCandles_empty_or_too_long [of "snd (ex_create 1048576)" "[0x41]" "[0x31, 0x68]" 5 6]
    IsInitialized_ex_create [of 1048576]
  by (simp add: MAX_CANDLES_PER_SYMBOL_def)

text \<open>
  Claim C9, as amended. \<open>Create\<close> returns \<open>INVALID_NAME\<close> exactly when the name is empty, and
  \<open>INVALID_SIZE\<close> exactly when the name is not empty and the size lies outside
  [4352, 1 GiB] (the name is checked first). On either failure the writer is returned as it
  was, whatever the operating system would have answered: nothing is created or mapped, and
  a writer that was not initialized stays so.
\<close>

theorem Create_validation:
  "(fst (Create os pid now name sz w) = INVALID_NAME \<longleftrightarrow> name = []) \<and>
   (fst (Create os pid now name sz w) = INVALID_SIZE \<longleftrightarrow>
      name \<noteq> [] \<and> (sz < 4352 \<or> sz > 1073741824)) \<and>
   (name = [] \<or> sz < 4352 \<or> sz > 1073741824 \<longrightarrow> snd (Create os pid now name sz w) = w)"
  by (auto simp: Create_def platform_create_def Let_def split: os_result.splits)

theorem Create_validation_witness:
  "Create ShmOpenFails 1 1000 [0x74] 100 ex_new = (INVALID_SIZE, ex_new) \<and>
   \<not> IsInitialized ex_new"
  using Create_validation [of ShmOpenFails 1 1000 "[0x74]" 100 ex_new]
  by (auto simp: prod_eq_iff ex_new_def new_writer_def IsInitialized_def)

text \<open>
  Claim C9 as stated fails: with an empty name and size 100, outside the range, \<open>Create\<close>
  does not return \<open>INVALID_SIZE\<close>.
\<close>

theorem Create_empty_name_bad_size:
  "(100 :: nat) < 4352 \<and> fst (Create ShmOpenFails 1 1000 [] 100 ex_new) \<noteq> INVALID_SIZE"
  by (simp add: Create_def)

text \<open>
  Claim C10. \<open>GetStats\<close> on a writer that is not initialized (as constructed, or after
  \<open>Close\<close>) returns the all-zero record, whatever the region's bytes; right after a
  successful \<open>Create\<close> it returns 0 symbols, 0 candles, write count 0 and 16640 bytes used.
\<close>

theorem GetStats_uninitialized_and_fresh:
  "(\<not> IsInitialized w \<longrightarrow> GetStats w = zero_stats) \<and>
   GetStats (new_writer s) = zero_stats \<and>
   GetStats (Close w) = zero_stats \<and>
   (fst (Create os pid now name sz w) = OK \<longrightarrow>
      total_symbols (GetStats (snd (Create os pid now name sz w))) = 0 \<and>
      total_candles (GetStats (snd (Create os pid now name sz w))) = 0 \<and>
      write_count (GetStats (snd (Create os pid now name sz w))) = 0 \<and>
      memory_used (GetStats (snd (Create os pid now name sz w))) = 16640)"
proof -
  have init: "GetStats (initialize_region pid now v) =
      \<lparr>total_symbols = 0, total_candles = 0, memory_used = 16640, last_write_us = now,
       write_count = 0\<rparr>" if "w_base_ptr v" for v
  proof -
    let ?m = "bytes (mem (initialize_region pid now v))"
    have c: "load32 ?m idx_count = 0"
      by (simp add: initialize_region_def Let_def load_memset0_disj layout_defs)
    have q: "load64 ?m hdr_sequence = 0"
      by (simp add: initialize_region_def Let_def load_memset0_disj load_store32_disj layout_defs)
    have t: "load64 ?m hdr_last_update_us = now"
      by (simp add: initialize_region_def Let_def load_memset0_disj load_store32_disj 
           load_store64_disj layout_defs)
    have r: "IsInitialized (initialize_region pid now v)"
      using that by (simp add: initialize_region_def Let_def IsInitialized_def)
    have n: "w_next_data_offset (initialize_region pid now v) = 16640"
      by (simp add: initialize_region_def Let_def layout_defs)
    show ?thesis
      using r by (simp add: GetStats_def c q t n sum_candles_zero)
  qed
  have "GetStats w = zero_stats" if "\<not> IsInitialized w"
    using that by (simp add: GetStats_def zero_stats_def)
  moreover have "GetStats (new_writer s) = zero_stats"
    by (simp add: GetStats_def zero_stats_def new_writer_def IsInitialized_def)
  moreover have "GetStats (Close w) = zero_stats"
    by (simp add: GetStats_def zero_stats_def Close_def IsInitialized_def)
  moreover have "total_symbols (GetStats (snd (Create os pid now name sz w))) = 0 \<and>
      total_candles (GetStats (snd (Create os pid now name sz w))) = 0 \<and>
      write_count (GetStats (snd (Create os pid now name sz w))) = 0 \<and>
      memory_used (GetStats (snd (Create os pid now name sz w))) = 16640"
    if "fst (Create os pid now name sz w) = OK"
    using that
    by (auto simp: Create_def platform_create_def Let_def init split: os_result.splits if_splits)
  ultimately show ?thesis by blast
qed

theorem GetStats_uninitialized_and_fresh_witness:
  "\<not> IsInitialized ex_new \<and> GetStats ex_new = zero_stats \<and>
   fst (ex_create 1048576) = OK \<and>
   memory_used (GetStats (snd (ex_create 1048576))) = 16640 \<and>
   total_symbols (GetStats (snd (ex_create 1048576))) = 0"
proof -
  have a: "\<not> IsInitialized ex_new"
    by (simp add: ex_new_def new_writer_def IsInitialized_def)
  have b: "fst (ex_create 1048576) = OK"
    by (simp add: ex_create_eval)
  show ?thesis
    using a b GetStats_uninitialized_and_fresh
      [of ex_new "mem ex_new" "Mapped 3 zero_mem" 1 1000 "[0x74]" 1048576]
    by (simp add: ex_create_def)
qed

text \<open>
  Claim C3 at the smallest size \<open>Create\<close> accepts: \<open>Create("t", 4352)\<close> succeeds, and
  \<open>initialize_region\<close> then zeroes \<open>entries\<close>, 10240 bytes from offset 264, which ends at
  10504, beyond the 4352 bytes of the region.
\<close>

theorem Create_minimum_size_out_of_bounds:
  "fst (ex_create 4352) = OK \<and> w_size (snd (ex_create 4352)) = 4352 \<and>
   (264, 10240) \<in> set (writes (mem (snd (ex_create 4352)))) \<and>
   \<not> in_bounds (snd (ex_create 4352))"
  by (simp add: ex_create_eval in_bounds_def stores_within_def initialize_region_def Let_def store32_def
      store64_def memset0_def store_bytes_def layout_defs ex_new_def new_writer_def)

end
